theory Spec2Isabelle
  imports Complex_Main "HOL-Library.Word"
begin

unbundle bit_operations_syntax

section \<open>Life Goals Predictor 2050: a shallow embedding of \<^verbatim>\<open>lifegoals2050.py\<close>\<close>

text \<open>
  Conventions of the embedding.
  \<^item> A Python \<^verbatim>\<open>dict\<close> of the content pack is a record \<open>item\<close> whose fields are the keys the
    tables use, each optional (a missing key is \<open>None\<close>); the empty dict \<^verbatim>\<open>{}\<close> is
    \<open>empty_item\<close>.
  \<^item> Dicts are mutable objects that the program shares by reference, so they live in an
    explicit store \<open>heap\<close>: \<open>cells\<close> maps an address to the dict stored there and \<open>nxt\<close> is
    the next free address. \<^verbatim>\<open>dict(x)\<close> allocates a new cell, \<^verbatim>\<open>it["weight"] += 3\<close> writes one.
  \<^item> A call either returns a value or raises; its outcome is \<open>(error + 'a) \<times> heap\<close>, the heap
    being the store the call leaves behind in both cases.
  \<^item> Python's \<^verbatim>\<open>int\<close> is \<open>int\<close>; Python's \<^verbatim>\<open>float\<close> is \<open>real\<close> (double arithmetic is exact on the
    small integers the tables hold).
  \<^item> Text is \<open>string\<close>; the few characters outside ASCII are carried as their UTF-8 bytes.
\<close>

subsection \<open>Trait items and the store\<close>

record item =
  item_id :: "string option"
  weight :: "int option"
  prestige :: "int option"
  risk :: "int option"
  tags :: "string list option"
  label :: "string option"
  impact :: "string option"
  price :: "string option"
  sustainability :: "int option"
  space :: "string option"
  level :: "int option"

definition empty_item :: item where
  "empty_item = \<lparr>item_id = None, weight = None, prestige = None, risk = None, tags = None,
     label = None, impact = None, price = None, sustainability = None, space = None,
     level = None\<rparr>"

text \<open>Truth value of a dict: an empty dict is false, any other is true.\<close>

definition truthy :: "item \<Rightarrow> bool" where
  "truthy it = (it \<noteq> empty_item)"

datatype error = KeyError string

record heap =
  cells :: "nat \<Rightarrow> item"
  nxt :: nat

type_synonym 'a outcome = "(error + 'a) \<times> heap"

definition alloc :: "item \<Rightarrow> heap \<Rightarrow> nat \<times> heap" where
  "alloc it h = (nxt h, h\<lparr>cells := (cells h)(nxt h := it), nxt := Suc (nxt h)\<rparr>)"

definition bind :: "'a outcome \<Rightarrow> ('a \<Rightarrow> heap \<Rightarrow> 'b outcome) \<Rightarrow> 'b outcome" where
  "bind m f = (case m of (Inl e, h) \<Rightarrow> (Inl e, h) | (Inr x, h) \<Rightarrow> f x h)"

subsection \<open>The random source\<close>

text \<open>
  A \<^verbatim>\<open>random.Random\<close> object is identified with the stream of 32-bit outputs its Mersenne
  Twister will still produce. \<^verbatim>\<open>random()\<close> consumes two of them (CPython's 53-bit
  construction) and \<^verbatim>\<open>uniform(a, b)\<close> is \<^verbatim>\<open>a + (b - a) * random()\<close>.
\<close>

type_synonym rng = "nat \<Rightarrow> 32 word"

definition random :: "rng \<Rightarrow> real \<times> rng" where
  "random g = ((real (unat (g 0) div 32) * 67108864 + real (unat (g 1) div 64)) / 9007199254740992,
               (\<lambda>i. g (i + 2)))"

definition uniform :: "rng \<Rightarrow> real \<Rightarrow> real \<Rightarrow> real \<times> rng" where
  "uniform g a b = (a + (b - a) * fst (random g), snd (random g))"

subsection \<open>Utilities: \<^verbatim>\<open>weighted_choice\<close> and \<^verbatim>\<open>fame_meter\<close>\<close>

text \<open>\<^verbatim>\<open>max(0.0, float(it.get(key, 0)))\<close>, for the key \<^verbatim>\<open>"weight"\<close> that every caller uses.\<close>

definition weight_of :: "item \<Rightarrow> real" where
  "weight_of it = max 0 (real_of_int (case weight it of None \<Rightarrow> 0 | Some w \<Rightarrow> w))"

text \<open>The \<^verbatim>\<open>for it in items\<close> loop: \<open>Some it\<close> when it returns from inside, \<open>None\<close> when it
  runs to the end.\<close>

fun scan :: "heap \<Rightarrow> real \<Rightarrow> real \<Rightarrow> nat list \<Rightarrow> nat option" where
  "scan h pick c [] = None"
| "scan h pick c (it # items) =
     (if pick \<le> c + weight_of (cells h it) then Some it
      else scan h pick (c + weight_of (cells h it)) items)"

text \<open>\<^verbatim>\<open>pick = rng.uniform(0, total) if total > 0 else 0\<close>; the generator is advanced only
  when it is asked.\<close>

definition draw :: "rng \<Rightarrow> real \<Rightarrow> real \<times> rng" where
  "draw g tot = (if tot > 0 then uniform g 0 tot else (0, g))"

definition weighted_choice :: "rng \<Rightarrow> nat list \<Rightarrow> heap \<Rightarrow> (nat \<times> rng) outcome" where
  "weighted_choice g items h =
     (let tot = sum_list (map (\<lambda>i. weight_of (cells h i)) items);
          pick = fst (draw g tot);
          g' = snd (draw g tot)
      in case scan h pick 0 items of
           Some it \<Rightarrow> (Inr (it, g'), h)
         | None \<Rightarrow>
             if items \<noteq> [] then (Inr (last items, g'), h)
             else (Inr (fst (alloc empty_item h), g'), snd (alloc empty_item h)))"

text \<open>The meter is a Python string of ten code points, U+2605 (filled) and U+2606 (empty);
  it is modelled as the list of its code points.\<close>

definition STAR :: nat where "STAR = 9733"
definition HOLLOW :: nat where "HOLLOW = 9734"

definition fame_meter :: "int \<Rightarrow> nat list" where
  "fame_meter level0 =
     (let level = max 0 (min level0 10)
      in replicate (nat level) STAR @ replicate (nat (10 - level)) HOLLOW)"

subsection \<open>SHA-256 (FIPS 180-4), on 32-bit words held as naturals\<close>

definition add32 :: "nat \<Rightarrow> nat \<Rightarrow> nat" where
  "add32 a b = (a + b) mod 4294967296"

definition rotr :: "nat \<Rightarrow> nat \<Rightarrow> nat" where
  "rotr n x = x div 2 ^ n + (x mod 2 ^ n) * 2 ^ (32 - n)"

text \<open>The standard defines its constants by what they are: the first 32 bits of the
  fractional parts of the cube roots (round constants) and square roots (initial hash value)
  of the first primes. \<open>iroot_bits\<close> computes an integer root bit by bit, from the highest
  bit down; \<open>primes_below\<close> sieves by trial division.\<close>

function halvings :: "nat \<Rightarrow> nat list" where
  "halvings b = (if b = 0 then [] else b # halvings (b div 2))"
  by pat_completeness auto
termination
  by (relation "measure id") auto

declare halvings.simps [simp del]

fun iroot_bits :: "nat \<Rightarrow> nat list \<Rightarrow> nat \<Rightarrow> nat \<Rightarrow> nat" where
  "iroot_bits e [] r n = r"
| "iroot_bits e (b # bs) r n = iroot_bits e bs (if (r + b) ^ e \<le> n then r + b else r) n"

function primes_below :: "nat \<Rightarrow> nat \<Rightarrow> nat list \<Rightarrow> nat list" where
  "primes_below n c ps =
     (if n \<le> c then []
      else if list_ex (\<lambda>p. c mod p = 0) ps then primes_below n (c + 1) ps
      else c # primes_below n (c + 1) (ps @ [c]))"
  by pat_completeness auto
termination
  by (relation "measure (\<lambda>(n, c, ps). n - c)") auto

declare primes_below.simps [simp del]

definition frac_root :: "nat \<Rightarrow> nat \<Rightarrow> nat" where
  "frac_root e p = iroot_bits e (halvings (2 ^ 35)) 0 (p * 2 ^ (32 * e)) mod 4294967296"

text \<open>The 64 primes below 312 and the 8 primes below 20.\<close>

definition K256 :: "nat list" where
  "K256 = map (frac_root 3) (primes_below 312 2 [])"

definition H256 :: "nat list" where
  "H256 = map (frac_root 2) (primes_below 20 2 [])"

definition ssig0 :: "nat \<Rightarrow> nat" where
  "ssig0 x = rotr 7 x XOR rotr 18 x XOR x div 2 ^ 3"

definition ssig1 :: "nat \<Rightarrow> nat" where
  "ssig1 x = rotr 17 x XOR rotr 19 x XOR x div 2 ^ 10"

definition bsig0 :: "nat \<Rightarrow> nat" where
  "bsig0 x = rotr 2 x XOR rotr 13 x XOR rotr 22 x"

definition bsig1 :: "nat \<Rightarrow> nat" where
  "bsig1 x = rotr 6 x XOR rotr 11 x XOR rotr 25 x"

definition ch :: "nat \<Rightarrow> nat \<Rightarrow> nat \<Rightarrow> nat" where
  "ch x y z = (x AND y) XOR ((4294967295 - x) AND z)"

definition maj :: "nat \<Rightarrow> nat \<Rightarrow> nat \<Rightarrow> nat" where
  "maj x y z = (x AND y) XOR (x AND z) XOR (y AND z)"

definition T1 :: "nat list \<Rightarrow> nat \<Rightarrow> nat \<Rightarrow> nat" where
  "T1 s k w = (s ! 7 + bsig1 (s ! 4) + ch (s ! 4) (s ! 5) (s ! 6) + k + w) mod 4294967296"

definition T2 :: "nat list \<Rightarrow> nat" where
  "T2 s = (bsig0 (s ! 0) + maj (s ! 0) (s ! 1) (s ! 2)) mod 4294967296"

text \<open>One round on the working variables \<open>[a, b, c, d, e, f, g, h]\<close>.\<close>

definition round1 :: "nat list \<Rightarrow> nat \<Rightarrow> nat \<Rightarrow> nat list" where
  "round1 s k w = [add32 (T1 s k w) (T2 s), s ! 0, s ! 1, s ! 2,
                   add32 (s ! 3) (T1 s k w), s ! 4, s ! 5, s ! 6]"

text \<open>The message schedule is kept as a window of sixteen words, oldest first: the head is
  the word of the current round, and the word sixteen rounds ahead is appended.\<close>

definition next_w :: "nat list \<Rightarrow> nat" where
  "next_w w = (ssig1 (w ! 14) + w ! 9 + ssig0 (w ! 1) + w ! 0) mod 4294967296"

fun rounds :: "nat list \<Rightarrow> nat list \<Rightarrow> nat list \<Rightarrow> nat list" where
  "rounds s [] w = s"
| "rounds s (k # ks) w = rounds (round1 s k (hd w)) ks (tl w @ [next_w w])"

definition compress :: "nat list \<Rightarrow> nat list \<Rightarrow> nat list" where
  "compress hs blk = map2 add32 hs (rounds hs K256 blk)"

fun be32 :: "nat list \<Rightarrow> nat list" where
  "be32 (a # b # c # d # r) = (((a * 256 + b) * 256 + c) * 256 + d) # be32 r"
| "be32 _ = []"

function zeros :: "nat \<Rightarrow> nat list" where
  "zeros n = (if n = 0 then [] else 0 # zeros (n - 1))"
  by pat_completeness auto
termination
  by (relation "measure id") auto

declare zeros.simps [simp del]

text \<open>Padding: the byte \<open>0x80\<close>, zero bytes up to 56 modulo 64, the bit length on 8 bytes.\<close>

definition pad :: "nat list \<Rightarrow> nat list" where
  "pad m = m @ [128] @ zeros ((119 - length m mod 64) mod 64)
     @ map (\<lambda>i. ((8 * length m) div 256 ^ (7 - i)) mod 256) [0, 1, 2, 3, 4, 5, 6, 7]"

function blocks :: "nat list \<Rightarrow> nat list \<Rightarrow> nat list" where
  "blocks hs ws = (if length ws < 16 then hs else blocks (compress hs (take 16 ws)) (drop 16 ws))"
  by pat_completeness auto
termination
  by (relation "measure (\<lambda>(hs, ws). length ws)") auto

declare blocks.simps [simp del]

definition sha256 :: "nat list \<Rightarrow> nat list" where
  "sha256 m = blocks H256 (be32 (pad m))"

text \<open>\<^verbatim>\<open>int(hashlib.sha256(key).hexdigest(), 16)\<close>: the digest read as one big-endian number.\<close>

definition sha256_int :: "nat list \<Rightarrow> nat" where
  "sha256_int m = foldl (\<lambda>acc w. acc * 4294967296 + w) 0 (sha256 m)"

subsection \<open>Seed derivation\<close>

text \<open>\<^verbatim>\<open>str.strip\<close> and \<^verbatim>\<open>str.lower\<close> on ASCII text: Python strips the characters 9 to 13,
  28 to 31 and 32, and lowers A to Z. \<^verbatim>\<open>encode\<close> gives the bytes of the text.\<close>

definition is_space :: "char \<Rightarrow> bool" where
  "is_space c = (let n = (of_char c :: nat) in (9 \<le> n \<and> n \<le> 13) \<or> (28 \<le> n \<and> n \<le> 32))"

definition py_strip :: "string \<Rightarrow> string" where
  "py_strip s = rev (dropWhile is_space (rev (dropWhile is_space s)))"

definition lower_char :: "char \<Rightarrow> char" where
  "lower_char c = (let n = (of_char c :: nat) in if 65 \<le> n \<and> n \<le> 90 then char_of (n + 32) else c)"

definition py_lower :: "string \<Rightarrow> string" where
  "py_lower s = map lower_char s"

definition encode :: "string \<Rightarrow> nat list" where
  "encode s = map of_char s"

text \<open>\<^verbatim>\<open>str(n)\<close> for a natural number, as the f-strings format it.\<close>

function py_str :: "nat \<Rightarrow> string" where
  "py_str n = (if n < 10 then [char_of (48 + n)] else py_str (n div 10) @ [char_of (48 + n mod 10)])"
  by pat_completeness auto
termination
  by (relation "measure id") auto

declare py_str.simps [simp del]

definition seed_from :: "string \<Rightarrow> string \<Rightarrow> nat" where
  "seed_from name timeline =
     sha256_int (encode (py_lower (py_strip name) @ ''::'' @ py_lower (py_strip timeline)))
       mod (2 ^ 32 - 1)"

text \<open>The number \<^verbatim>\<open>rng_for\<close> hands to \<^verbatim>\<open>random.Random\<close>.\<close>

definition rng_seed :: "string \<Rightarrow> string \<Rightarrow> string \<Rightarrow> nat" where
  "rng_seed name timeline salt =
     sha256_int (encode (py_str (seed_from name timeline) @ '':'' @ salt)) mod (2 ^ 32 - 1)"

text \<open>\<^verbatim>\<open>random.Random(seed)\<close>, the seeding of the Mersenne Twister, belongs to the standard
  library; it is the parameter \<open>Random\<close>, a function from the seed to the generator.\<close>

definition rng_for :: "(nat \<Rightarrow> rng) \<Rightarrow> string \<Rightarrow> string \<Rightarrow> string \<Rightarrow> rng" where
  "rng_for Random name timeline salt = Random (rng_seed name timeline salt)"


subsection \<open>The content pack\<close>

definition career_item ::
  "string \<Rightarrow> int \<Rightarrow> int \<Rightarrow> int \<Rightarrow> string list \<Rightarrow> string \<Rightarrow> string \<Rightarrow> item" where
  "career_item i w p r ts l im = \<lparr>item_id = Some i, weight = Some w, prestige = Some p,
     risk = Some r, tags = Some ts, label = Some l, impact = Some im, price = None,
     sustainability = None, space = None, level = None\<rparr>"

definition car_item :: "string \<Rightarrow> int \<Rightarrow> string \<Rightarrow> int \<Rightarrow> string list \<Rightarrow> string \<Rightarrow> item" where
  "car_item i w pr su ts l = \<lparr>item_id = Some i, weight = Some w, prestige = None,
     risk = None, tags = Some ts, label = Some l, impact = None, price = Some pr,
     sustainability = Some su, space = None, level = None\<rparr>"

definition house_item ::
  "string \<Rightarrow> int \<Rightarrow> string \<Rightarrow> string \<Rightarrow> string list \<Rightarrow> string \<Rightarrow> item" where
  "house_item i w pr sp ts l = \<lparr>item_id = Some i, weight = Some w, prestige = None,
     risk = None, tags = Some ts, label = Some l, impact = None, price = Some pr,
     sustainability = None, space = Some sp, level = None\<rparr>"

definition relationship_item :: "string \<Rightarrow> int \<Rightarrow> string \<Rightarrow> item" where
  "relationship_item i w l = \<lparr>item_id = Some i, weight = Some w, prestige = None,
     risk = None, tags = None, label = Some l, impact = None, price = None,
     sustainability = None, space = None, level = None\<rparr>"

definition fame_item :: "string \<Rightarrow> int \<Rightarrow> int \<Rightarrow> string \<Rightarrow> item" where
  "fame_item i w lv l = \<lparr>item_id = Some i, weight = Some w, prestige = None,
     risk = None, tags = None, label = Some l, impact = None, price = None,
     sustainability = None, space = None, level = Some lv\<rparr>"

text \<open>The 28 dict literals of \<^verbatim>\<open>TRAITS\<close>, in source order. They are the first objects of the
  store: item \<open>k\<close> of this list lives at address \<open>k\<close>.\<close>

definition TRAIT_ITEMS :: "item list" where
  "TRAIT_ITEMS = [
    career_item ''ai_researcher'' 9 9 5 [''tech'', ''research''] ''AI Researcher''
      (''breakthroughs in human'' @ [CHR 0xE2, CHR 0x80, CHR 0x93] @ ''AI collaboration''),
    career_item ''creative_director'' 7 7 4 [''creative''] ''Creative Director''
      ''genre-bending campaigns and IP worlds'',
    career_item ''founder'' 8 8 9 [''business'', ''risk''] ''Startup Founder''
      ''a profitable mission-driven company'',
    career_item ''product_lead'' 8 8 6 [''tech'', ''product''] ''Product Lead''
      ''platforms used by millions'',
    career_item ''cinematic_vfx'' 6 7 6 [''creative'', ''film''] ''Cinematic VFX Director''
      ''award-winning visuals'',
    career_item ''wildcard_nomad'' 3 5 7 [''travel'', ''gig''] ''Digital Nomad''
      ''projects across continents'',
    career_item ''data_ethicist'' 5 7 3 [''tech'', ''policy''] ''Data Ethicist''
      ''safer, fairer AI systems'',
    career_item ''edu_creator'' 6 6 5 [''creator'', ''edu''] ''Edu Creator''
      ''teaching millions online'',
    car_item ''solid_ev'' 10 ''mid'' 8 [''ev''] ''reliable EV'',
    car_item ''ultra_lux_ev'' 3 ''ultra'' 8 [''ev'', ''lux''] ''ultra-luxury EV'',
    car_item ''retro_mod'' 4 ''mid_low'' 5 [''style''] ''retro-modern ride'',
    car_item ''no_car_city'' 6 ''none'' 10 [''urban''] ''no personal car (city mobility)'',
    car_item ''smart_scooter'' 5 ''low'' 9 [''urban'', ''ev''] ''smart e-scooter + transit'',
    house_item ''smart_apartment'' 10 ''mid'' ''mid'' [''urban'', ''smart''] ''smart apartment'',
    house_item ''skyline_penthouse'' 2 ''ultra'' ''mid'' [''lux''] ''skyline penthouse'',
    house_item ''villa_coastal'' 3 ''high'' ''high'' [''coast''] ''coastal villa'',
    house_item ''tiny_home'' 4 ''low'' ''low'' [''minimal''] ''tiny home'',
    house_item ''studio_loft'' 6 ''mid_low'' ''mid_low'' [''urban'', ''creative''] ''studio loft'',
    relationship_item ''married_kids'' 7 ''married with kids'',
    relationship_item ''married_no_kids'' 6 ''married, no kids'',
    relationship_item ''partnered'' 6 ''partnered'',
    relationship_item ''solo'' 5 ''solo'',
    relationship_item ''global_long_distance'' 2 ''global long-distance'',
    fame_item ''local_known'' 8 3 ''locally known'',
    fame_item ''industry_respected'' 8 5 ''industry-respected'',
    fame_item ''viral_creator'' 4 7 ''viral creator'',
    fame_item ''global_icon'' 1 10 ''global icon'',
    fame_item ''low_profile'' 6 1 ''low profile'']"

text \<open>\<^verbatim>\<open>TRAITS[d]\<close>: the list object of domain \<open>d\<close>, holding references to its dicts. No
  statement of the program assigns to \<^verbatim>\<open>TRAITS\<close> or to one of its lists, so the lists are
  constants here; the dicts they refer to are in the store.\<close>

definition TRAITS :: "string \<Rightarrow> nat list" where
  "TRAITS d =
     (if d = ''career'' then [0, 1, 2, 3, 4, 5, 6, 7]
      else if d = ''car'' then [8, 9, 10, 11, 12]
      else if d = ''house'' then [13, 14, 15, 16, 17]
      else if d = ''relationship'' then [18, 19, 20, 21, 22]
      else if d = ''fame'' then [23, 24, 25, 26, 27]
      else [])"

definition DOMAINS :: "string list" where
  "DOMAINS = [''career'', ''car'', ''house'', ''relationship'', ''fame'']"

text \<open>The store right after the module has been loaded.\<close>

definition heap0 :: heap where
  "heap0 = \<lparr>cells = (\<lambda>r. if r < 28 then TRAIT_ITEMS ! r else empty_item), nxt = 28\<rparr>"

text \<open>The tables are as the module defined them.\<close>

definition tables_intact :: "heap \<Rightarrow> bool" where
  "tables_intact h = (map (cells h) [0..<28] = TRAIT_ITEMS \<and> 28 \<le> nxt h)"

subsection \<open>Rule engine\<close>

record Picks =
  career :: nat
  car :: nat
  house :: nat
  relationship :: nat
  fame :: nat
  trace :: "string list"

definition get_tags :: "item \<Rightarrow> string list" where
  "get_tags it = (case tags it of None \<Rightarrow> [] | Some ts \<Rightarrow> ts)"

text \<open>The three conditions the rule loops test on a pool entry: \<^verbatim>\<open>it["id"] == s\<close>,
  \<^verbatim>\<open>it["id"] in (...)\<close> and \<^verbatim>\<open>"t" in it.get("tags", [])\<close>. Subscripting a missing key raises.\<close>

definition id_is :: "string \<Rightarrow> item \<Rightarrow> error + bool" where
  "id_is s it = (case item_id it of None \<Rightarrow> Inl (KeyError ''id'') | Some i \<Rightarrow> Inr (i = s))"

definition id_in :: "string list \<Rightarrow> item \<Rightarrow> error + bool" where
  "id_in ss it = (case item_id it of None \<Rightarrow> Inl (KeyError ''id'') | Some i \<Rightarrow> Inr (i \<in> set ss))"

definition tagged :: "string \<Rightarrow> item \<Rightarrow> error + bool" where
  "tagged t it = Inr (t \<in> set (get_tags it))"

text \<open>\<^verbatim>\<open>for it in pool: if cond(it): it["weight"] = f(it["weight"])\<close>, writing to the store.\<close>

fun adjust :: "(item \<Rightarrow> error + bool) \<Rightarrow> (int \<Rightarrow> int) \<Rightarrow> nat list \<Rightarrow> heap \<Rightarrow> unit outcome" where
  "adjust c f [] h = (Inr (), h)"
| "adjust c f (it # pool) h =
     (case c (cells h it) of
        Inl e \<Rightarrow> (Inl e, h)
      | Inr False \<Rightarrow> adjust c f pool h
      | Inr True \<Rightarrow>
          (case weight (cells h it) of
             None \<Rightarrow> (Inl (KeyError ''weight''), h)
           | Some w \<Rightarrow>
               adjust c f pool (h\<lparr>cells := (cells h)(it := (cells h it)\<lparr>weight := Some (f w)\<rparr>)\<rparr>)))"

text \<open>\<^verbatim>\<open>[dict(x) for x in table]\<close>: one fresh cell per entry, holding a copy.\<close>

fun copy_pool :: "nat list \<Rightarrow> heap \<Rightarrow> nat list \<times> heap" where
  "copy_pool [] h = ([], h)"
| "copy_pool (x # xs) h =
     (case alloc (cells h x) h of (r, h1) \<Rightarrow>
        (case copy_pool xs h1 of (rs, h2) \<Rightarrow> (r # rs, h2)))"

definition ge_sign :: string where
  "ge_sign = [CHR 0xE2, CHR 0x89, CHR 0xA5]"

definition MSG_LUX_BOOST :: string where
  "MSG_LUX_BOOST = ''car: luxury boost (prestige '' @ ge_sign @ ''8 & fame '' @ ge_sign @ ''7)''"

definition MSG_LUX_DAMPED :: string where
  "MSG_LUX_DAMPED = ''car: luxury damped (prestige/fame below threshold)''"

definition add_trace :: "string \<Rightarrow> Picks \<Rightarrow> Picks" where
  "add_trace t p = p\<lparr>trace := trace p @ [t]\<rparr>"

text \<open>Lines 127 to 150 of \<^verbatim>\<open>apply_rules\<close>: the car pool, its two rules and the re-pick.\<close>

definition rules_car :: "int \<Rightarrow> int \<Rightarrow> Picks \<Rightarrow> rng \<Rightarrow> heap \<Rightarrow> (Picks \<times> rng) outcome" where
  "rules_car prest fame_level p g h =
     (case copy_pool (TRAITS ''car'') h of (car_pool, h1) \<Rightarrow>
      bind (if prest \<ge> 8 \<and> fame_level \<ge> 7
            then adjust (id_is ''ultra_lux_ev'') (\<lambda>w. w + 3) car_pool h1
            else adjust (id_is ''ultra_lux_ev'') (\<lambda>w. max 1 (w - 2)) car_pool h1)
        (\<lambda>_ h2.
          let p1 = add_trace (if prest \<ge> 8 \<and> fame_level \<ge> 7 then MSG_LUX_BOOST
                              else MSG_LUX_DAMPED) p;
              is_urbanish = (''urban'' \<in> set (get_tags (cells h2 (house p1)))
                             \<or> ''tech'' \<in> set (get_tags (cells h2 (career p1))))
          in bind (if is_urbanish
                   then adjust (id_in [''no_car_city'', ''smart_scooter'']) (\<lambda>w. w + 2) car_pool h2
                   else (Inr (), h2))
               (\<lambda>_ h3.
                 let p2 = (if is_urbanish then add_trace ''car: urban mobility boost'' p1 else p1)
                 in bind (weighted_choice g car_pool h3)
                      (\<lambda>(c, g') h4. (Inr (p2\<lparr>car := c\<rparr>, g'), h4)))))"

text \<open>Lines 152 to 170: the house pool, its three rules and the re-pick.\<close>

definition rules_house ::
  "int \<Rightarrow> int \<Rightarrow> string \<Rightarrow> Picks \<Rightarrow> rng \<Rightarrow> heap \<Rightarrow> (Picks \<times> rng) outcome" where
  "rules_house prest fame_level rel_id p g h =
     (case copy_pool (TRAITS ''house'') h of (house_pool, h1) \<Rightarrow>
      bind (if rel_id = ''solo''
            then adjust (id_in [''tiny_home'', ''studio_loft'']) (\<lambda>w. w + 3) house_pool h1
            else (Inr (), h1))
        (\<lambda>_ h2.
          let p1 = (if rel_id = ''solo'' then add_trace ''house: compact-living boost (solo)'' p
                    else p)
          in case item_id (cells h2 (car p1)) of
               None \<Rightarrow> (Inl (KeyError ''id''), h2)
             | Some car_id \<Rightarrow>
                 bind (if car_id \<in> set [''no_car_city'', ''smart_scooter'']
                       then adjust (tagged ''urban'') (\<lambda>w. w + 2) house_pool h2
                       else (Inr (), h2))
                   (\<lambda>_ h3.
                     let p2 = (if car_id \<in> set [''no_car_city'', ''smart_scooter'']
                               then add_trace ''house: urban access boost (city mobility)'' p1
                               else p1)
                     in bind (if prest \<ge> 8 \<and> fame_level \<ge> 7
                              then adjust (id_is ''skyline_penthouse'') (\<lambda>w. w + 2) house_pool h3
                              else (Inr (), h3))
                          (\<lambda>_ h4.
                            let p3 = (if prest \<ge> 8 \<and> fame_level \<ge> 7
                                      then add_trace ''house: penthouse boost (prestige & fame)'' p2
                                      else p2)
                            in bind (weighted_choice g house_pool h4)
                                 (\<lambda>(c, g') h5. (Inr (p3\<lparr>house := c\<rparr>, g'), h5))))))"

text \<open>The condition of line 174; \<^verbatim>\<open>or\<close> does not evaluate \<^verbatim>\<open>p.career["id"]\<close> when the tag is
  there.\<close>

definition creator_or_founder :: "item \<Rightarrow> error + bool" where
  "creator_or_founder it =
     (if ''creator'' \<in> set (get_tags it) then Inr True
      else id_in [''founder'', ''cinematic_vfx''] it)"

text \<open>Lines 172 to 179: the fame pool is copied in any case, adjusted and sampled only for
  creators and founders.\<close>

definition rules_fame :: "Picks \<Rightarrow> rng \<Rightarrow> heap \<Rightarrow> (Picks \<times> rng) outcome" where
  "rules_fame p g h =
     (case copy_pool (TRAITS ''fame'') h of (fame_pool, h1) \<Rightarrow>
      (case creator_or_founder (cells h1 (career p)) of
         Inl e \<Rightarrow> (Inl e, h1)
       | Inr False \<Rightarrow> (Inr (p, g), h1)
       | Inr True \<Rightarrow>
           bind (adjust (id_in [''viral_creator'', ''industry_respected'']) (\<lambda>w. w + 1)
                   fame_pool h1)
             (\<lambda>_ h2.
               bind (weighted_choice g fame_pool h2)
                 (\<lambda>(c, g') h3.
                   (Inr ((add_trace ''fame: creator/founder nudge'' p)\<lparr>fame := c\<rparr>, g'), h3)))))"

text \<open>\<^verbatim>\<open>apply_rules\<close>. \<^verbatim>\<open>int(...)\<close> of an \<^verbatim>\<open>int\<close> is the identity; the local \<^verbatim>\<open>risk\<close> is read by the
  source and never used, \<^verbatim>\<open>.get\<close> cannot raise, so it is left out.\<close>

definition apply_rules :: "Picks \<Rightarrow> rng \<Rightarrow> heap \<Rightarrow> (Picks \<times> rng) outcome" where
  "apply_rules p g h =
     (let prest = (case prestige (cells h (career p)) of None \<Rightarrow> 5 | Some v \<Rightarrow> v);
          fame_level = (case level (cells h (fame p)) of None \<Rightarrow> 1 | Some v \<Rightarrow> v)
      in case item_id (cells h (relationship p)) of
           None \<Rightarrow> (Inl (KeyError ''id''), h)
         | Some rel_id \<Rightarrow>
             bind (rules_car prest fame_level p g h)
               (\<lambda>(p1, g1) h1.
                 bind (rules_house prest fame_level rel_id p1 g1 h1)
                   (\<lambda>(p2, g2) h2. rules_fame p2 g2 h2)))"

subsection \<open>Prediction, Monte Carlo and rerolls\<close>

text \<open>\<^verbatim>\<open>lock.get(d) or weighted_choice(rng, TRAITS[d])\<close>: a locked dict is taken when it is
  there and true; the sampler, and with it the generator, is used only otherwise.\<close>

definition locked_or :: "(string \<rightharpoonup> nat) \<Rightarrow> string \<Rightarrow> rng \<Rightarrow> heap \<Rightarrow> (nat \<times> rng) outcome" where
  "locked_or lock d g h =
     (case lock d of
        Some r \<Rightarrow> if truthy (cells h r) then (Inr (r, g), h) else weighted_choice g (TRAITS d) h
      | None \<Rightarrow> weighted_choice g (TRAITS d) h)"

definition pick_all ::
  "(nat \<Rightarrow> rng) \<Rightarrow> string \<Rightarrow> string \<Rightarrow> (string \<rightharpoonup> nat) option \<Rightarrow> string \<Rightarrow> heap \<Rightarrow> Picks outcome" where
  "pick_all Random name timeline lock0 salt h =
     (let g = rng_for Random name timeline salt;
          lock = (case lock0 of None \<Rightarrow> Map.empty | Some l \<Rightarrow> l)
      in bind (locked_or lock ''career'' g h) (\<lambda>(career', g1) h1.
         bind (locked_or lock ''fame'' g1 h1) (\<lambda>(fame', g2) h2.
         bind (locked_or lock ''relationship'' g2 h2) (\<lambda>(relationship', g3) h3.
         bind (locked_or lock ''car'' g3 h3) (\<lambda>(car', g4) h4.
         bind (locked_or lock ''house'' g4 h4) (\<lambda>(house', g5) h5.
         bind (apply_rules \<lparr>career = career', car = car', house = house',
                             relationship = relationship', fame = fame', trace = []\<rparr> g5 h5)
           (\<lambda>(p, g6) h6. (Inr p, h6))))))))"

text \<open>\<^verbatim>\<open>getattr(p, d)\<close> for a domain name.\<close>

definition pick_of :: "Picks \<Rightarrow> string \<Rightarrow> nat" where
  "pick_of p d =
     (if d = ''career'' then career p
      else if d = ''car'' then car p
      else if d = ''house'' then house p
      else if d = ''relationship'' then relationship p
      else fame p)"

text \<open>A tally is a dict from identifier to count, kept in insertion order;
  \<^verbatim>\<open>counts[d][key] = counts[d].get(key, 0) + 1\<close>.\<close>

type_synonym tally = "(string \<times> int) list"

fun incr :: "string \<Rightarrow> tally \<Rightarrow> tally" where
  "incr key [] = [(key, 1)]"
| "incr key ((k, v) # m) = (if k = key then (k, v + 1) # m else (k, v) # incr key m)"

definition tally_one :: "string \<Rightarrow> string \<Rightarrow> (string \<times> tally) list \<Rightarrow> (string \<times> tally) list" where
  "tally_one d key counts = map (\<lambda>(d', m). if d' = d then (d', incr key m) else (d', m)) counts"

text \<open>The inner loop \<^verbatim>\<open>for d in DOMAINS\<close> of one trial.\<close>

fun tally_domains ::
  "Picks \<Rightarrow> heap \<Rightarrow> string list \<Rightarrow> (string \<times> tally) list \<Rightarrow> error + (string \<times> tally) list" where
  "tally_domains p h [] counts = Inr counts"
| "tally_domains p h (d # ds) counts =
     (case item_id (cells h (pick_of p d)) of
        None \<Rightarrow> Inl (KeyError ''id'')
      | Some key \<Rightarrow> tally_domains p h ds (tally_one d key counts))"

text \<open>The outer loop \<^verbatim>\<open>for i in range(n)\<close>, from index \<open>i\<close> on.\<close>

function mc_loop ::
  "(nat \<Rightarrow> rng) \<Rightarrow> string \<Rightarrow> string \<Rightarrow> int \<Rightarrow> int \<Rightarrow> (string \<times> tally) list \<Rightarrow> heap
     \<Rightarrow> (string \<times> tally) list outcome" where
  "mc_loop Random name timeline i n counts h =
     (if i < n then
        (case pick_all Random name timeline None (''mc:'' @ py_str (nat i)) h of
           (Inl e, h1) \<Rightarrow> (Inl e, h1)
         | (Inr p, h1) \<Rightarrow>
             (case tally_domains p h1 DOMAINS counts of
                Inl e \<Rightarrow> (Inl e, h1)
              | Inr counts' \<Rightarrow> mc_loop Random name timeline (i + 1) n counts' h1))
      else (Inr counts, h))"
  by pat_completeness auto
termination
  by (relation "measure (\<lambda>(Random, name, timeline, i, n, counts, h). nat (n - i))") auto

declare mc_loop.simps [simp del]

definition monte_carlo ::
  "(nat \<Rightarrow> rng) \<Rightarrow> string \<Rightarrow> string \<Rightarrow> int \<Rightarrow> heap \<Rightarrow> (string \<times> tally) list outcome" where
  "monte_carlo Random name timeline n h =
     mc_loop Random name timeline 0 n (map (\<lambda>d. (d, [])) DOMAINS) h"

definition reroll_section ::
  "(nat \<Rightarrow> rng) \<Rightarrow> string \<Rightarrow> string \<Rightarrow> string \<Rightarrow> Picks \<Rightarrow> heap \<Rightarrow> Picks outcome" where
  "reroll_section Random name timeline domain base h =
     (let locks = (\<lambda>d. if d \<in> set DOMAINS \<and> d \<noteq> domain then Some (pick_of base d) else None)
      in pick_all Random name timeline (Some locks) (''reroll:'' @ domain) h)"

subsection \<open>Auxiliary notions used to state the properties\<close>

text \<open>A generator whose outputs are all zero, for the concrete instances.\<close>

definition zero_rng :: rng where
  "zero_rng = (\<lambda>i. 0)"


text \<open>Two small stores for the concrete instances: three items of weight zero, and three
  items with a negative, a missing and a positive weight.\<close>

definition zero_heap :: heap where
  "zero_heap = \<lparr>cells = (\<lambda>r. empty_item\<lparr>weight := Some 0\<rparr>), nxt = 3\<rparr>"



text \<open>Two dicts that differ at most in the value of the weight key, which both have or both lack.\<close>

definition same_shape :: "item \<Rightarrow> item \<Rightarrow> bool" where
  "same_shape a b = (b\<lparr>weight := weight a\<rparr> = a \<and> (weight a = None) = (weight b = None))"

text \<open>The store \<open>h'\<close> extends \<open>h\<close>: every object of \<open>h\<close> is still there, unchanged; \<open>h'\<close> may
  hold new objects.\<close>

definition extends :: "heap \<Rightarrow> heap \<Rightarrow> bool" where
  "extends h h' = (nxt h \<le> nxt h' \<and> (\<forall>r<nxt h. cells h' r = cells h r))"

text \<open>The stores a program can reach from \<open>h\<close> by any number of calls of the four operations,
  with any arguments, whether a call returns or raises.\<close>

inductive calls :: "(nat \<Rightarrow> rng) \<Rightarrow> heap \<Rightarrow> heap \<Rightarrow> bool" for Random :: "nat \<Rightarrow> rng" where
  no_call: "calls Random h h"
| call_pick_all:
    "calls Random h h1 \<Longrightarrow> calls Random h (snd (pick_all Random name timeline lock salt h1))"
| call_apply_rules:
    "calls Random h h1 \<Longrightarrow> calls Random h (snd (apply_rules p g h1))"
| call_monte_carlo:
    "calls Random h h1 \<Longrightarrow> calls Random h (snd (monte_carlo Random name timeline n h1))"
| call_reroll_section:
    "calls Random h h1 \<Longrightarrow>
       calls Random h (snd (reroll_section Random name timeline domain base h1))"

text \<open>A Pick-Set holds trait items: each of its five references points to an existing dict
  that has an identifier.\<close>

definition wf_picks :: "heap \<Rightarrow> Picks \<Rightarrow> bool" where
  "wf_picks h p =
     list_all (\<lambda>d. pick_of p d < nxt h \<and> item_id (cells h (pick_of p d)) \<noteq> None) DOMAINS"

text \<open>The sum of all occurrence counts in the tally of a domain.\<close>

definition domain_total :: "string \<Rightarrow> (string \<times> tally) list \<Rightarrow> int" where
  "domain_total d counts =
     (case map_of counts d of None \<Rightarrow> 0 | Some m \<Rightarrow> sum_list (map snd m))"

text \<open>A stand-in for \<^verbatim>\<open>random.Random\<close> whose generators only produce zeros, for the concrete
  instances.\<close>

definition zero_Random :: "nat \<Rightarrow> rng" where
  "zero_Random seed = zero_rng"

text \<open>A Pick-Set of first table entries, for the concrete instances.\<close>

definition sample_picks :: Picks where
  "sample_picks = \<lparr>career = 0, car = 8, house = 13, relationship = 18, fame = 23, trace = []\<rparr>"

text \<open>The condition of the prestige and fame synergy rule, on the values \<^verbatim>\<open>apply_rules\<close>
  reads at its start: \<^verbatim>\<open>prestige >= 8 and fame_level >= 7\<close>.\<close>

definition lux_synergy :: "heap \<Rightarrow> Picks \<Rightarrow> bool" where
  "lux_synergy h p =
     ((case prestige (cells h (career p)) of None \<Rightarrow> 5 | Some v \<Rightarrow> v) \<ge> 8
      \<and> (case level (cells h (fame p)) of None \<Rightarrow> 1 | Some v \<Rightarrow> v) \<ge> 7)"

text \<open>The trace entries of the three house rules.\<close>

definition HOUSE_MSGS :: "string set" where
  "HOUSE_MSGS = {''house: compact-living boost (solo)'',
                 ''house: urban access boost (city mobility)'',
                 ''house: penthouse boost (prestige & fame)''}"

section \<open>Properties\<close>

subsection \<open>The weighted sampler\<close>

lemma scan_mem: "scan h pick c items = Some it \<Longrightarrow> it \<in> set items"
  by (induction items arbitrary: c) (auto split: if_splits)

lemma weight_of_nonneg: "0 \<le> weight_of it"
  by (simp add: weight_of_def)


lemma scan_zero_first:
  "items \<noteq> [] \<Longrightarrow> weight_of (cells h (hd items)) = 0 \<Longrightarrow> scan h 0 0 items = Some (hd items)"
  by (cases items) auto



text \<open>On a list that is not empty the sampler returns one of its entries and leaves the
  store alone.\<close>

lemma weighted_choice_member:
  assumes "items \<noteq> []"
  shows "\<exists>it g'. weighted_choice g items h = (Inr (it, g'), h) \<and> it \<in> set items"
proof (cases "scan h (fst (draw g (sum_list (map (\<lambda>r. weight_of (cells h r)) items)))) 0 items")
  case None
  then show ?thesis using assms by (auto simp: weighted_choice_def Let_def)
next
  case (Some it)
  then show ?thesis using scan_mem [OF Some] by (auto simp: weighted_choice_def Let_def)
qed

text \<open>
  Claim C2, as the code has it. Given an empty candidate list the sampler does not signal an
  error: the guard \<^verbatim>\<open>items[-1] if items else {}\<close> makes it return a fresh empty dict, and the
  generator is not touched. The concrete instance runs it on the initial store.
\<close>

theorem weighted_choice_empty_list:
  "weighted_choice g [] h =
     (Inr (nxt h, g), h\<lparr>cells := (cells h)(nxt h := empty_item), nxt := Suc (nxt h)\<rparr>)"
  by (simp add: weighted_choice_def draw_def alloc_def)

theorem weighted_choice_empty_no_error:
  "fst (weighted_choice zero_rng [] heap0) = Inr (28, zero_rng)
   \<and> cells (snd (weighted_choice zero_rng [] heap0)) 28 = empty_item"
  by (simp add: weighted_choice_def draw_def alloc_def heap0_def)

text \<open>
  Claim C4. For every non-empty candidate list in which every item has weight zero, the
  sampler returns the first item of the list; it does not raise, it selects no other
  position, and it neither advances the generator nor changes the store.
\<close>

theorem all_zero_weights_first:
  assumes "items \<noteq> []" and "\<forall>r\<in>set items. weight (cells h r) = Some 0"
  shows "weighted_choice g items h = (Inr (hd items, g), h)"
proof -
  have w: "\<forall>r\<in>set items. weight_of (cells h r) = 0"
    using assms(2) by (simp add: weight_of_def)
  then have tot: "sum_list (map (\<lambda>i. weight_of (cells h i)) items) = 0"
    by (induction items) auto
  have "weight_of (cells h (hd items)) = 0" using w assms(1) by simp
  then have "scan h 0 0 items = Some (hd items)"
    using assms(1) by (rule scan_zero_first [rotated])
  then show ?thesis
    by (simp add: weighted_choice_def tot draw_def)
qed

theorem all_zero_weights_first_witness:
  "[0, 1, 2] \<noteq> [] \<and> weight (cells zero_heap 0) = Some 0 \<and> weight (cells zero_heap 1) = Some 0
   \<and> weight (cells zero_heap 2) = Some 0
   \<and> weighted_choice zero_rng [0, 1, 2] zero_heap = (Inr (0, zero_rng), zero_heap)"
proof -
  have ne: "[0, 1, 2::nat] \<noteq> []" by simp
  have z: "\<forall>r\<in>set [0, 1, 2::nat]. weight (cells zero_heap r) = Some 0"
    by (simp add: zero_heap_def)
  show ?thesis
    using ne z all_zero_weights_first [OF ne z, of zero_rng] by simp
qed



subsection \<open>The fame meter\<close>

text \<open>
  Claim C9. For every integer fame level the meter has exactly ten slots; the number of
  filled slots is the level clamped to the range 0 to 10, the remaining slots are empty, and
  the filled slots come first.
\<close>

theorem fame_meter_ten_slots:
  "length (fame_meter lv) = 10
   \<and> length (filter (\<lambda>c. c = STAR) (fame_meter lv)) = nat (max 0 (min lv 10))
   \<and> length (filter (\<lambda>c. c = HOLLOW) (fame_meter lv)) = 10 - nat (max 0 (min lv 10))
   \<and> (\<exists>k. fame_meter lv = replicate k STAR @ replicate (10 - k) HOLLOW)"
proof -
  define l where "l = max 0 (min lv 10)"
  have l: "0 \<le> l" "l \<le> 10" by (auto simp: l_def)
  have fm: "fame_meter lv = replicate (nat l) STAR @ replicate (nat (10 - l)) HOLLOW"
    by (simp add: fame_meter_def l_def Let_def)
  have ne: "STAR \<noteq> HOLLOW" by (simp add: STAR_def HOLLOW_def)
  have n: "nat (10 - l) = 10 - nat l" using l by linarith
  show ?thesis
    unfolding fm l_def [symmetric] using l ne n by auto
qed

subsection \<open>The store: allocation, copies and weight adjustments\<close>

lemma bind_Inr [simp]: "bind (Inr x, h) f = f x h"
  by (simp add: bind_def)

lemma bind_Inl [simp]: "bind (Inl e, h) f = (Inl e, h)"
  by (simp add: bind_def)

lemma alloc_simps [simp]:
  "fst (alloc it h) = nxt h"
  "nxt (snd (alloc it h)) = Suc (nxt h)"
  "cells (snd (alloc it h)) r = (if r = nxt h then it else cells h r)"
  by (simp_all add: alloc_def)

lemma copy_pool_spec:
  "copy_pool xs h = (rs, h') \<Longrightarrow>
     rs = [nxt h..<nxt h + length xs] \<and> nxt h' = nxt h + length xs
     \<and> (\<forall>r<nxt h. cells h' r = cells h r)
     \<and> (\<forall>i<length xs. xs ! i < nxt h \<longrightarrow> cells h' (nxt h + i) = cells h (xs ! i))"
proof (induction xs arbitrary: h rs h')
  case Nil
  then show ?case by simp
next
  case (Cons x xs)
  obtain r h1 where a: "alloc (cells h x) h = (r, h1)" by (cases "alloc (cells h x) h")
  obtain rs' h2 where c: "copy_pool xs h1 = (rs', h2)" by (cases "copy_pool xs h1")
  from a have r: "r = nxt h" and n1: "nxt h1 = Suc (nxt h)"
    and c1: "\<And>q. cells h1 q = (if q = nxt h then cells h x else cells h q)"
    by (auto simp: alloc_def)
  from Cons.prems a c have rs: "rs = r # rs'" and h': "h' = h2" by auto
  note IH = Cons.IH [OF c]
  have 1: "rs = [nxt h..<nxt h + length (x # xs)]"
    using IH rs r n1 by (simp add: upt_conv_Cons del: upt_Suc)
  have 2: "nxt h' = nxt h + length (x # xs)" using IH h' n1 by simp
  have 3: "\<forall>q<nxt h. cells h' q = cells h q" using IH h' n1 c1 by simp
  have 4: "\<forall>i<length (x # xs). (x # xs) ! i < nxt h \<longrightarrow>
             cells h' (nxt h + i) = cells h ((x # xs) ! i)"
  proof (intro allI impI)
    fix i assume i: "i < length (x # xs)" and lt: "(x # xs) ! i < nxt h"
    show "cells h' (nxt h + i) = cells h ((x # xs) ! i)"
    proof (cases i)
      case 0
      have "cells h2 (nxt h) = cells h1 (nxt h)" using IH n1 by simp
      then show ?thesis using 0 h' c1 by simp
    next
      case (Suc j)
      then have j: "j < length xs" and ltj: "xs ! j < nxt h1" using i lt n1 by auto
      have "cells h2 (nxt h1 + j) = cells h1 (xs ! j)" using IH j ltj by blast
      then show ?thesis using Suc h' n1 c1 lt by simp
    qed
  qed
  show ?case using 1 2 3 4 by blast
qed

lemma adjust_frame:
  "adjust c f pool h = (res, h') \<Longrightarrow>
     nxt h' = nxt h \<and> (\<forall>r. r \<notin> set pool \<longrightarrow> cells h' r = cells h r)"
proof (induction pool arbitrary: h)
  case Nil
  then show ?case by simp
next
  case (Cons it pool)
  show ?case
  proof (cases "c (cells h it)")
    case (Inl e)
    then show ?thesis using Cons.prems by simp
  next
    case (Inr b)
    show ?thesis
    proof (cases b)
      case False
      then show ?thesis using Cons.prems Inr Cons.IH [of h] by simp
    next
      case True
      show ?thesis
      proof (cases "weight (cells h it)")
        case None
        then show ?thesis using Cons.prems Inr True by simp
      next
        case (Some w)
        then show ?thesis
          using Cons.prems Inr True
            Cons.IH [of "h\<lparr>cells := (cells h)(it := (cells h it)\<lparr>weight := Some (f w)\<rparr>)\<rparr>"]
          by simp
      qed
    qed
  qed
qed

lemma same_shape_refl [simp]: "same_shape a a"
  by (simp add: same_shape_def)

lemma same_shape_trans: "same_shape a b \<Longrightarrow> same_shape b c \<Longrightarrow> same_shape a c"
  by (cases a, cases b, cases c) (auto simp: same_shape_def)

lemma same_shape_fields:
  "same_shape a b \<Longrightarrow> item_id b = item_id a \<and> tags b = tags a \<and> prestige b = prestige a
     \<and> level b = level a \<and> label b = label a \<and> (weight b = None) = (weight a = None)"
  by (cases a, cases b) (auto simp: same_shape_def)

lemma adjust_shape:
  "adjust c f pool h = (res, h') \<Longrightarrow> same_shape (cells h r) (cells h' r)"
proof (induction pool arbitrary: h)
  case Nil
  then show ?case by simp
next
  case (Cons it pool)
  show ?case
  proof (cases "c (cells h it)")
    case (Inl e)
    then show ?thesis using Cons.prems by simp
  next
    case (Inr b)
    show ?thesis
    proof (cases b)
      case False
      then show ?thesis using Cons.prems Inr Cons.IH [of h] by simp
    next
      case True
      show ?thesis
      proof (cases "weight (cells h it)")
        case None
        then show ?thesis using Cons.prems Inr True by simp
      next
        case (Some w)
        let ?h1 = "h\<lparr>cells := (cells h)(it := (cells h it)\<lparr>weight := Some (f w)\<rparr>)\<rparr>"
        have "same_shape (cells ?h1 r) (cells h' r)"
          using Cons.prems Inr True Some Cons.IH [of ?h1] by simp
        moreover have "same_shape (cells h r) (cells ?h1 r)"
          using Some by (cases "cells h it") (auto simp: same_shape_def)
        ultimately show ?thesis by (rule same_shape_trans [rotated])
      qed
    qed
  qed
qed

subsection \<open>Weight adjustments and copies of the tables\<close>

lemma adjust_ok:
  assumes "\<forall>r\<in>set pool. item_id (cells h r) \<noteq> None \<and> weight (cells h r) \<noteq> None"
    and "\<forall>it. item_id it \<noteq> None \<longrightarrow> (\<exists>b. c it = Inr b)"
  shows "\<exists>h'. adjust c f pool h = (Inr (), h')"
  using assms(1)
proof (induction pool arbitrary: h)
  case Nil
  then show ?case by simp
next
  case (Cons it pool)
  from Cons.prems obtain w where w: "weight (cells h it) = Some w" by auto
  from Cons.prems assms(2) obtain b where b: "c (cells h it) = Inr b" by fastforce
  show ?case
  proof (cases b)
    case False
    then show ?thesis using b Cons.IH [of h] Cons.prems by simp
  next
    case True
    let ?h1 = "h\<lparr>cells := (cells h)(it := (cells h it)\<lparr>weight := Some (f w)\<rparr>)\<rparr>"
    have "\<forall>r\<in>set pool. item_id (cells ?h1 r) \<noteq> None \<and> weight (cells ?h1 r) \<noteq> None"
      using Cons.prems by auto
    from Cons.IH [OF this] show ?thesis using b True w by simp
  qed
qed

lemma adjust_value:
  assumes "distinct pool" and "adjust c f pool h = (Inr (), h')" and "r \<in> set pool"
  shows "cells h' r = (if c (cells h r) = Inr True
                       then (cells h r)\<lparr>weight := map_option f (weight (cells h r))\<rparr>
                       else cells h r)"
  using assms
proof (induction pool arbitrary: h)
  case Nil
  then show ?case by simp
next
  case (Cons it pool)
  from Cons.prems(2) obtain b where b: "c (cells h it) = Inr b"
    by (cases "c (cells h it)") auto
  show ?case
  proof (cases b)
    case False
    then have adj: "adjust c f pool h = (Inr (), h')" using Cons.prems(2) b by simp
    show ?thesis
    proof (cases "r = it")
      case True
      then have "r \<notin> set pool" using Cons.prems(1) by simp
      then have "cells h' r = cells h r" using adjust_frame [OF adj] by blast
      then show ?thesis using True b False by simp
    next
      case False
      then show ?thesis using Cons.IH [OF _ adj] Cons.prems by simp
    qed
  next
    case True
    from Cons.prems(2) b True obtain w where w: "weight (cells h it) = Some w"
      by (cases "weight (cells h it)") auto
    let ?h1 = "h\<lparr>cells := (cells h)(it := (cells h it)\<lparr>weight := Some (f w)\<rparr>)\<rparr>"
    have adj: "adjust c f pool ?h1 = (Inr (), h')" using Cons.prems(2) b True w by simp
    show ?thesis
    proof (cases "r = it")
      case True
      then have "r \<notin> set pool" using Cons.prems(1) by simp
      then have "cells h' r = cells ?h1 r" using adjust_frame [OF adj] by blast
      then show ?thesis using True b \<open>b\<close> w by simp
    next
      case False
      then have "r \<in> set pool" using Cons.prems(3) by simp
      from Cons.IH [OF _ adj this] Cons.prems(1) False show ?thesis by simp
    qed
  qed
qed

lemma id_conditions_total:
  "\<forall>it. item_id it \<noteq> None \<longrightarrow> (\<exists>b. id_is s it = Inr b)"
  "\<forall>it. item_id it \<noteq> None \<longrightarrow> (\<exists>b. id_in ss it = Inr b)"
  "\<forall>it. item_id it \<noteq> None \<longrightarrow> (\<exists>b. tagged t it = Inr b)"
  by (auto simp: id_is_def id_in_def tagged_def)

text \<open>A rule that may or may not fire: in both cases the call returns, and it leaves the
  cells outside the pool, the next free address and the shape of every dict as they were.\<close>

lemma cond_adjust:
  assumes "\<forall>r\<in>set pool. item_id (cells h r) \<noteq> None \<and> weight (cells h r) \<noteq> None"
    and "\<forall>it. item_id it \<noteq> None \<longrightarrow> (\<exists>b. c it = Inr b)"
  shows "\<exists>h'. (if u then adjust c f pool h else (Inr (), h)) = (Inr (), h')
           \<and> nxt h' = nxt h \<and> (\<forall>r. r \<notin> set pool \<longrightarrow> cells h' r = cells h r)
           \<and> (\<forall>r. same_shape (cells h r) (cells h' r))
           \<and> (\<forall>r\<in>set pool. item_id (cells h' r) \<noteq> None \<and> weight (cells h' r) \<noteq> None)"
proof (cases u)
  case False
  then show ?thesis using assms(1) by simp
next
  case True
  from adjust_ok [OF assms] obtain h' where a: "adjust c f pool h = (Inr (), h')" by blast
  have sh: "\<forall>r. same_shape (cells h r) (cells h' r)" using adjust_shape [OF a] by blast
  have "\<forall>r\<in>set pool. item_id (cells h' r) \<noteq> None \<and> weight (cells h' r) \<noteq> None"
    using assms(1) sh same_shape_fields by metis
  then show ?thesis using True a adjust_frame [OF a] sh by auto
qed

lemma tables_cell: "tables_intact h \<Longrightarrow> r < 28 \<Longrightarrow> cells h r = TRAIT_ITEMS ! r"
proof -
  assume ti: "tables_intact h" and r: "r < 28"
  have "map (cells h) [0..<28] ! r = TRAIT_ITEMS ! r" using ti by (simp add: tables_intact_def)
  then show ?thesis using r by simp
qed

lemma length_TRAIT_ITEMS: "length TRAIT_ITEMS = 28"
  by (simp add: TRAIT_ITEMS_def)

lemma tables_intactI:
  "28 \<le> nxt h \<Longrightarrow> (\<forall>r<28. cells h r = TRAIT_ITEMS ! r) \<Longrightarrow> tables_intact h"
  unfolding tables_intact_def
  by (auto intro!: nth_equalityI simp: length_TRAIT_ITEMS)

lemma tables_intact_frame:
  "tables_intact h \<Longrightarrow> nxt h \<le> nxt h' \<Longrightarrow> (\<forall>r<nxt h. cells h' r = cells h r) \<Longrightarrow>
     tables_intact h'"
proof (rule tables_intactI)
  assume ti: "tables_intact h" and n: "nxt h \<le> nxt h'" and f: "\<forall>r<nxt h. cells h' r = cells h r"
  from ti have 28: "28 \<le> nxt h" by (simp add: tables_intact_def)
  then show "28 \<le> nxt h'" using n by simp
  show "\<forall>r<28. cells h' r = TRAIT_ITEMS ! r"
    using f 28 tables_cell [OF ti] by auto
qed

lemma trait_items_have_id_weight:
  "r < 28 \<Longrightarrow> item_id (TRAIT_ITEMS ! r) \<noteq> None \<and> weight (TRAIT_ITEMS ! r) \<noteq> None"
proof -
  have "list_all (\<lambda>it. item_id it \<noteq> None \<and> weight it \<noteq> None) TRAIT_ITEMS"
    by (simp add: TRAIT_ITEMS_def career_item_def car_item_def house_item_def
        relationship_item_def fame_item_def)
  then show "r < 28 \<Longrightarrow> item_id (TRAIT_ITEMS ! r) \<noteq> None \<and> weight (TRAIT_ITEMS ! r) \<noteq> None"
    by (simp add: list_all_length length_TRAIT_ITEMS)
qed

lemma TRAITS_bound: "r \<in> set (TRAITS d) \<Longrightarrow> r < 28"
  by (auto simp: TRAITS_def split: if_splits)

text \<open>Copying a table of an intact store: the copies are the next free cells, each holds what
  the table entry holds, and nothing that existed is touched.\<close>

lemma copy_tables:
  assumes "tables_intact h" and "copy_pool (TRAITS d) h = (pool, h1)"
  shows "pool = [nxt h..<nxt h + length (TRAITS d)] \<and> nxt h1 = nxt h + length (TRAITS d)
         \<and> (\<forall>r<nxt h. cells h1 r = cells h r)
         \<and> (\<forall>i<length (TRAITS d). cells h1 (nxt h + i) = TRAIT_ITEMS ! (TRAITS d ! i))
         \<and> (\<forall>r\<in>set pool. item_id (cells h1 r) \<noteq> None \<and> weight (cells h1 r) \<noteq> None)
         \<and> tables_intact h1"
proof -
  note cp = copy_pool_spec [OF assms(2)]
  from assms(1) have 28: "28 \<le> nxt h" by (simp add: tables_intact_def)
  have c: "\<forall>i<length (TRAITS d). cells h1 (nxt h + i) = TRAIT_ITEMS ! (TRAITS d ! i)"
  proof (intro allI impI)
    fix i assume i: "i < length (TRAITS d)"
    then have b: "TRAITS d ! i < 28" using TRAITS_bound [of "TRAITS d ! i" d] by simp
    then have "cells h1 (nxt h + i) = cells h (TRAITS d ! i)" using cp i 28 by auto
    then show "cells h1 (nxt h + i) = TRAIT_ITEMS ! (TRAITS d ! i)"
      using tables_cell [OF assms(1) b] by simp
  qed
  have g: "\<forall>r\<in>set pool. item_id (cells h1 r) \<noteq> None \<and> weight (cells h1 r) \<noteq> None"
  proof
    fix r assume "r \<in> set pool"
    then obtain i where i: "i < length (TRAITS d)" and r: "r = nxt h + i"
      using cp by (auto simp: nat_le_iff_add)
    have "TRAITS d ! i < 28" using TRAITS_bound [of "TRAITS d ! i" d] i by simp
    then show "item_id (cells h1 r) \<noteq> None \<and> weight (cells h1 r) \<noteq> None"
      using c i r trait_items_have_id_weight by simp
  qed
  have "tables_intact h1"
    using tables_intact_frame [OF assms(1), of h1] cp by simp
  then show ?thesis using cp c g by blast
qed

subsection \<open>The three stages of the rule engine\<close>

lemma car_table: "TRAITS ''car'' = [8, 9, 10, 11, 12]"
  by (simp add: TRAITS_def)

lemma ultra_lux_entry:
  "TRAIT_ITEMS ! 9 = car_item ''ultra_lux_ev'' 3 ''ultra'' 8 [''ev'', ''lux''] ''ultra-luxury EV''"
  by (simp add: TRAIT_ITEMS_def)

lemma rules_car_spec:
  assumes ti: "tables_intact h"
  shows "\<exists>c g' h' rest.
           rules_car prest fl p g h =
             (Inr (p\<lparr>trace := trace p @ (if prest \<ge> 8 \<and> fl \<ge> 7 then MSG_LUX_BOOST
                                           else MSG_LUX_DAMPED) # rest, car := c\<rparr>, g'), h')
           \<and> (rest = [] \<or> rest = [''car: urban mobility boost''])
           \<and> nxt h \<le> c \<and> c < nxt h + 5 \<and> item_id (cells h' c) \<noteq> None
           \<and> nxt h' = nxt h + 5 \<and> (\<forall>r<nxt h. cells h' r = cells h r) \<and> tables_intact h'
           \<and> item_id (cells h' (nxt h + 1)) = Some ''ultra_lux_ev''
           \<and> weight (cells h' (nxt h + 1)) =
               Some (if prest \<ge> 8 \<and> fl \<ge> 7 then 3 + 3 else max 1 (3 - 2))"
proof -
  define b where "b = (prest \<ge> 8 \<and> fl \<ge> 7)"
  obtain pool h1 where cp: "copy_pool (TRAITS ''car'') h = (pool, h1)"
    by (cases "copy_pool (TRAITS ''car'') h")
  have len: "length (TRAITS ''car'') = 5" by (simp add: car_table)
  from copy_tables [OF ti cp]
  have pool: "pool = [nxt h..<nxt h + 5]" and n1: "nxt h1 = nxt h + 5"
    and old1: "\<forall>r<nxt h. cells h1 r = cells h r"
    and cont: "\<forall>i<5. cells h1 (nxt h + i) = TRAIT_ITEMS ! (TRAITS ''car'' ! i)"
    and good1: "\<forall>r\<in>set pool. item_id (cells h1 r) \<noteq> None \<and> weight (cells h1 r) \<noteq> None"
    unfolding len by blast+
  have dist: "distinct pool" and mem: "Suc (nxt h) \<in> set pool" by (simp_all add: pool)
  have "cells h1 (Suc (nxt h)) = TRAIT_ITEMS ! (TRAITS ''car'' ! 1)"
    using cont [rule_format, of 1] by simp
  then have ul1: "cells h1 (Suc (nxt h)) =
      car_item ''ultra_lux_ev'' 3 ''ultra'' 8 [''ev'', ''lux''] ''ultra-luxury EV''"
    by (simp add: car_table ultra_lux_entry)
  \<comment> \<open>the synergy rule\<close>
  define f where "f = (if b then (\<lambda>w::int. w + 3) else (\<lambda>w. max 1 (w - 2)))"
  from adjust_ok [OF good1 id_conditions_total(1)]
  obtain h2 where a1: "adjust (id_is ''ultra_lux_ev'') f pool h1 = (Inr (), h2)" by blast
  note fr1 = adjust_frame [OF a1]
  have sh1: "\<forall>r. same_shape (cells h1 r) (cells h2 r)" using adjust_shape [OF a1] by blast
  have good2: "\<forall>r\<in>set pool. item_id (cells h2 r) \<noteq> None \<and> weight (cells h2 r) \<noteq> None"
    using good1 sh1 same_shape_fields by metis
  have ul2: "cells h2 (Suc (nxt h)) =
      (car_item ''ultra_lux_ev'' 3 ''ultra'' 8 [''ev'', ''lux''] ''ultra-luxury EV'')
        \<lparr>weight := Some (f 3)\<rparr>"
    using adjust_value [OF dist a1 mem] by (simp add: ul1 id_is_def car_item_def)
  \<comment> \<open>the urban rule\<close>
  define u where "u = (''urban'' \<in> set (get_tags (cells h2 (house p)))
                        \<or> ''tech'' \<in> set (get_tags (cells h2 (career p))))"
  from cond_adjust [OF good2 id_conditions_total(2), of u "[''no_car_city'', ''smart_scooter'']"
      "\<lambda>w. w + 2"]
  obtain h3 where a2: "(if u then adjust (id_in [''no_car_city'', ''smart_scooter''])
                                 (\<lambda>w. w + 2) pool h2 else (Inr (), h2)) = (Inr (), h3)"
    and n3: "nxt h3 = nxt h2" and fr2: "\<forall>r. r \<notin> set pool \<longrightarrow> cells h3 r = cells h2 r"
    and good3: "\<forall>r\<in>set pool. item_id (cells h3 r) \<noteq> None \<and> weight (cells h3 r) \<noteq> None"
    by blast
  have ul3: "cells h3 (Suc (nxt h)) = cells h2 (Suc (nxt h))"
  proof (cases u)
    case False
    then show ?thesis using a2 by simp
  next
    case True
    then have "adjust (id_in [''no_car_city'', ''smart_scooter'']) (\<lambda>w. w + 2) pool h2
        = (Inr (), h3)" using a2 by simp
    from adjust_value [OF dist this mem] show ?thesis
      by (simp add: ul2 id_in_def car_item_def)
  qed
  \<comment> \<open>the re-pick\<close>
  have "pool \<noteq> []" by (simp add: pool)
  from weighted_choice_member [OF this, of g h3]
  obtain c g' where wc: "weighted_choice g pool h3 = (Inr (c, g'), h3)" and c: "c \<in> set pool"
    by blast
  define rest where "rest = (if u then [''car: urban mobility boost''] else [])"
  have a1': "(if prest \<ge> 8 \<and> fl \<ge> 7
              then adjust (id_is ''ultra_lux_ev'') (\<lambda>w. w + 3) pool h1
              else adjust (id_is ''ultra_lux_ev'') (\<lambda>w. max 1 (w - 2)) pool h1) = (Inr (), h2)"
    using a1 by (auto simp: f_def b_def split: if_splits)
  have res: "rules_car prest fl p g h =
      (Inr (p\<lparr>trace := trace p @ (if prest \<ge> 8 \<and> fl \<ge> 7 then MSG_LUX_BOOST
                                   else MSG_LUX_DAMPED) # rest, car := c\<rparr>, g'), h3)"
  proof (cases u)
    case True
    with a2 have a2t: "adjust (id_in [''no_car_city'', ''smart_scooter'']) (\<lambda>w. w + 2) pool h2
        = (Inr (), h3)" by simp
    from True have ut: "''urban'' \<in> set (get_tags (cells h2 (house p)))
        \<or> ''tech'' \<in> set (get_tags (cells h2 (career p)))" by (simp add: u_def)
    show ?thesis
      unfolding rules_car_def cp
      by (simp add: Let_def add_trace_def a1' ut a2t wc rest_def True)
  next
    case False
    with a2 have h32: "h3 = h2" by simp
    from False have uf: "\<not> (''urban'' \<in> set (get_tags (cells h2 (house p)))
        \<or> ''tech'' \<in> set (get_tags (cells h2 (career p))))" by (simp add: u_def)
    show ?thesis
      unfolding rules_car_def cp
      using uf wc by (simp add: Let_def add_trace_def a1' rest_def False h32)
  qed
  have n: "nxt h3 = nxt h + 5" using n3 fr1 n1 by simp
  have old: "\<forall>r<nxt h. cells h3 r = cells h r"
    using fr2 fr1 old1 by (simp add: pool)
  have ti3: "tables_intact h3" using tables_intact_frame [OF ti, of h3] n old by simp
  have w: "weight (cells h3 (Suc (nxt h))) = Some (if prest \<ge> 8 \<and> fl \<ge> 7 then 3 + 3
                                                   else max 1 (3 - 2))"
    using ul3 ul2 by (simp add: f_def b_def)
  have i: "item_id (cells h3 (nxt h + 1)) = Some ''ultra_lux_ev''"
    using ul3 ul2 by (simp add: car_item_def)
  have "nxt h \<le> c \<and> c < nxt h + 5 \<and> item_id (cells h3 c) \<noteq> None"
    using c good3 by (auto simp: pool)
  then show ?thesis using res n old ti3 w i by (auto simp: rest_def)
qed

lemma house_table: "TRAITS ''house'' = [13, 14, 15, 16, 17]"
  by (simp add: TRAITS_def)

lemma fame_table: "TRAITS ''fame'' = [23, 24, 25, 26, 27]"
  by (simp add: TRAITS_def)

lemma add_trace_fields [simp]:
  "career (add_trace t p) = career p" "car (add_trace t p) = car p"
  "house (add_trace t p) = house p" "relationship (add_trace t p) = relationship p"
  "fame (add_trace t p) = fame p" "trace (add_trace t p) = trace p @ [t]"
  by (simp_all add: add_trace_def)

lemma rules_house_spec:
  assumes ti: "tables_intact h" and cid: "item_id (cells h (car p)) \<noteq> None"
    and cl: "car p < nxt h"
  shows "\<exists>c g' h' rest.
           rules_house prest fl rel p g h = (Inr (p\<lparr>trace := trace p @ rest, house := c\<rparr>, g'), h')
           \<and> set rest \<subseteq> HOUSE_MSGS
           \<and> nxt h \<le> c \<and> c < nxt h + 5 \<and> item_id (cells h' c) \<noteq> None
           \<and> nxt h' = nxt h + 5 \<and> (\<forall>r<nxt h. cells h' r = cells h r) \<and> tables_intact h'"
proof -
  obtain pool h1 where cp: "copy_pool (TRAITS ''house'') h = (pool, h1)"
    by (cases "copy_pool (TRAITS ''house'') h")
  have len: "length (TRAITS ''house'') = 5" by (simp add: house_table)
  from copy_tables [OF ti cp]
  have pool: "pool = [nxt h..<nxt h + 5]" and n1: "nxt h1 = nxt h + 5"
    and old1: "\<forall>r<nxt h. cells h1 r = cells h r"
    and good1: "\<forall>r\<in>set pool. item_id (cells h1 r) \<noteq> None \<and> weight (cells h1 r) \<noteq> None"
    unfolding len by blast+
  from cond_adjust [OF good1 id_conditions_total(2), of "rel = ''solo''"
      "[''tiny_home'', ''studio_loft'']" "\<lambda>w. w + 3"]
  obtain h2 where a1: "(if rel = ''solo''
        then adjust (id_in [''tiny_home'', ''studio_loft'']) (\<lambda>w. w + 3) pool h1
        else (Inr (), h1)) = (Inr (), h2)"
    and n2: "nxt h2 = nxt h1" and fr1: "\<forall>r. r \<notin> set pool \<longrightarrow> cells h2 r = cells h1 r"
    and good2: "\<forall>r\<in>set pool. item_id (cells h2 r) \<noteq> None \<and> weight (cells h2 r) \<noteq> None"
    by blast
  have "cells h2 (car p) = cells h (car p)" using fr1 old1 cl by (simp add: pool)
  then obtain car_id where cid': "item_id (cells h2 (car p)) = Some car_id" using cid by auto
  from cond_adjust [OF good2 id_conditions_total(3),
      of "car_id \<in> set [''no_car_city'', ''smart_scooter'']" "''urban''" "\<lambda>w. w + 2"]
  obtain h3 where a2: "(if car_id \<in> set [''no_car_city'', ''smart_scooter'']
        then adjust (tagged ''urban'') (\<lambda>w. w + 2) pool h2 else (Inr (), h2)) = (Inr (), h3)"
    and n3: "nxt h3 = nxt h2" and fr2: "\<forall>r. r \<notin> set pool \<longrightarrow> cells h3 r = cells h2 r"
    and good3: "\<forall>r\<in>set pool. item_id (cells h3 r) \<noteq> None \<and> weight (cells h3 r) \<noteq> None"
    by blast
  from cond_adjust [OF good3 id_conditions_total(1), of "prest \<ge> 8 \<and> fl \<ge> 7"
      "''skyline_penthouse''" "\<lambda>w. w + 2"]
  obtain h4 where a3: "(if prest \<ge> 8 \<and> fl \<ge> 7
        then adjust (id_is ''skyline_penthouse'') (\<lambda>w. w + 2) pool h3 else (Inr (), h3))
        = (Inr (), h4)"
    and n4: "nxt h4 = nxt h3" and fr3: "\<forall>r. r \<notin> set pool \<longrightarrow> cells h4 r = cells h3 r"
    and good4: "\<forall>r\<in>set pool. item_id (cells h4 r) \<noteq> None \<and> weight (cells h4 r) \<noteq> None"
    by blast
  have "pool \<noteq> []" by (simp add: pool)
  from weighted_choice_member [OF this, of g h4]
  obtain c g' where wc: "weighted_choice g pool h4 = (Inr (c, g'), h4)" and c: "c \<in> set pool"
    by blast
  define rest where "rest =
    (if rel = ''solo'' then [''house: compact-living boost (solo)''] else [])
    @ (if car_id \<in> set [''no_car_city'', ''smart_scooter'']
       then [''house: urban access boost (city mobility)''] else [])
    @ (if prest \<ge> 8 \<and> fl \<ge> 7 then [''house: penthouse boost (prestige & fame)''] else [])"
  have cid1: "item_id (cells h2 (car (if rel = ''solo''
      then add_trace ''house: compact-living boost (solo)'' p else p))) = Some car_id"
    using cid' by simp
  have res: "rules_house prest fl rel p g h =
      (Inr (p\<lparr>trace := trace p @ rest, house := c\<rparr>, g'), h4)"
    unfolding rules_house_def cp
    by (simp add: Let_def a1 cid1 a2 a3 wc rest_def add_trace_def del: set_simps)
  have n: "nxt h4 = nxt h + 5" using n4 n3 n2 n1 by simp
  have old: "\<forall>r<nxt h. cells h4 r = cells h r"
    using fr3 fr2 fr1 old1 by (simp add: pool)
  have ti4: "tables_intact h4" using tables_intact_frame [OF ti, of h4] n old by simp
  have "set rest \<subseteq> HOUSE_MSGS" by (auto simp: rest_def HOUSE_MSGS_def)
  moreover have "nxt h \<le> c \<and> c < nxt h + 5 \<and> item_id (cells h4 c) \<noteq> None"
    using c good4 by (auto simp: pool)
  ultimately show ?thesis using res n old ti4 by blast
qed

lemma rules_fame_spec:
  assumes ti: "tables_intact h" and cid: "item_id (cells h (career p)) \<noteq> None"
    and cl: "career p < nxt h"
  shows "\<exists>c g' h' rest.
           rules_fame p g h = (Inr (p\<lparr>trace := trace p @ rest, fame := c\<rparr>, g'), h')
           \<and> (rest = [] \<or> rest = [''fame: creator/founder nudge''])
           \<and> (c = fame p \<or> (nxt h \<le> c \<and> c < nxt h + 5 \<and> item_id (cells h' c) \<noteq> None))
           \<and> nxt h' = nxt h + 5 \<and> (\<forall>r<nxt h. cells h' r = cells h r) \<and> tables_intact h'"
proof -
  obtain pool h1 where cp: "copy_pool (TRAITS ''fame'') h = (pool, h1)"
    by (cases "copy_pool (TRAITS ''fame'') h")
  have len: "length (TRAITS ''fame'') = 5" by (simp add: fame_table)
  from copy_tables [OF ti cp]
  have pool: "pool = [nxt h..<nxt h + 5]" and n1: "nxt h1 = nxt h + 5"
    and old1: "\<forall>r<nxt h. cells h1 r = cells h r"
    and good1: "\<forall>r\<in>set pool. item_id (cells h1 r) \<noteq> None \<and> weight (cells h1 r) \<noteq> None"
    and ti1: "tables_intact h1"
    unfolding len by blast+
  have "cells h1 (career p) = cells h (career p)" using old1 cl by simp
  then have "item_id (cells h1 (career p)) \<noteq> None" using cid by simp
  then have "\<exists>b. creator_or_founder (cells h1 (career p)) = Inr b"
    by (auto simp: creator_or_founder_def id_in_def)
  then obtain b where b: "creator_or_founder (cells h1 (career p)) = Inr b" by blast
  show ?thesis
  proof (cases b)
    case False
    then have "rules_fame p g h = (Inr (p\<lparr>trace := trace p @ [], fame := fame p\<rparr>, g), h1)"
      unfolding rules_fame_def cp using b by simp
    then show ?thesis using n1 old1 ti1 by blast
  next
    case True
    from adjust_ok [OF good1 id_conditions_total(2)]
    obtain h2 where a: "adjust (id_in [''viral_creator'', ''industry_respected''])
        (\<lambda>w. w + 1) pool h1 = (Inr (), h2)" by blast
    note fr = adjust_frame [OF a]
    have sh: "\<forall>r. same_shape (cells h1 r) (cells h2 r)" using adjust_shape [OF a] by blast
    have good2: "\<forall>r\<in>set pool. item_id (cells h2 r) \<noteq> None"
      using good1 sh same_shape_fields by metis
    have "pool \<noteq> []" by (simp add: pool)
    from weighted_choice_member [OF this, of g h2]
    obtain c g' where wc: "weighted_choice g pool h2 = (Inr (c, g'), h2)" and c: "c \<in> set pool"
      by blast
    have res: "rules_fame p g h =
        (Inr (p\<lparr>trace := trace p @ [''fame: creator/founder nudge''], fame := c\<rparr>, g'), h2)"
      unfolding rules_fame_def cp using b True by (simp add: a wc add_trace_def)
    have n: "nxt h2 = nxt h + 5" using fr n1 by simp
    have old: "\<forall>r<nxt h. cells h2 r = cells h r" using fr old1 by (simp add: pool)
    have ti2: "tables_intact h2" using tables_intact_frame [OF ti, of h2] n old by simp
    have "nxt h \<le> c \<and> c < nxt h + 5 \<and> item_id (cells h2 c) \<noteq> None"
      using c good2 by (auto simp: pool)
    then show ?thesis using res n old ti2 by blast
  qed
qed

text \<open>The condition of the synergy rule, on the values \<^verbatim>\<open>apply_rules\<close> reads at its start.\<close>

lemma apply_rules_spec:
  assumes ti: "tables_intact h" and rid: "item_id (cells h (relationship p)) \<noteq> None"
    and cid: "item_id (cells h (career p)) \<noteq> None" and cl: "career p < nxt h"
  shows "\<exists>c hs fm g' h' rest.
           apply_rules p g h =
             (Inr (p\<lparr>trace := trace p @ (if lux_synergy h p then MSG_LUX_BOOST
                                           else MSG_LUX_DAMPED) # rest,
                      car := c, house := hs, fame := fm\<rparr>, g'), h')
           \<and> set rest \<subseteq> insert ''car: urban mobility boost''
                (insert ''fame: creator/founder nudge'' HOUSE_MSGS)
           \<and> nxt h \<le> c \<and> c < nxt h + 5 \<and> item_id (cells h' c) \<noteq> None
           \<and> nxt h + 5 \<le> hs \<and> hs < nxt h + 10 \<and> item_id (cells h' hs) \<noteq> None
           \<and> (fm = fame p \<or> (nxt h + 10 \<le> fm \<and> fm < nxt h + 15 \<and> item_id (cells h' fm) \<noteq> None))
           \<and> nxt h' = nxt h + 15 \<and> (\<forall>r<nxt h. cells h' r = cells h r) \<and> tables_intact h'
           \<and> item_id (cells h' (nxt h + 1)) = Some ''ultra_lux_ev''
           \<and> weight (cells h' (nxt h + 1)) =
               Some (if lux_synergy h p then 3 + 3 else max 1 (3 - 2))"
proof -
  define prest where "prest = (case prestige (cells h (career p)) of None \<Rightarrow> 5 | Some v \<Rightarrow> v)"
  define fl where "fl = (case level (cells h (fame p)) of None \<Rightarrow> 1 | Some v \<Rightarrow> v)"
  have b: "lux_synergy h p = (prest \<ge> 8 \<and> fl \<ge> 7)"
    by (simp add: lux_synergy_def prest_def fl_def)
  from rid obtain rel where rel: "item_id (cells h (relationship p)) = Some rel" by auto
  from rules_car_spec [OF ti, of prest fl p g]
  obtain c g1 h1 rest1 where
    r1: "rules_car prest fl p g h =
           (Inr (p\<lparr>trace := trace p @ (if prest \<ge> 8 \<and> fl \<ge> 7 then MSG_LUX_BOOST
                                         else MSG_LUX_DAMPED) # rest1, car := c\<rparr>, g1), h1)"
    and rest1: "rest1 = [] \<or> rest1 = [''car: urban mobility boost'']"
    and c: "nxt h \<le> c" "c < nxt h + 5" "item_id (cells h1 c) \<noteq> None"
    and n1: "nxt h1 = nxt h + 5" and old1: "\<forall>r<nxt h. cells h1 r = cells h r"
    and ti1: "tables_intact h1"
    and i1: "item_id (cells h1 (nxt h + 1)) = Some ''ultra_lux_ev''"
    and w1: "weight (cells h1 (nxt h + 1)) =
               Some (if prest \<ge> 8 \<and> fl \<ge> 7 then 3 + 3 else max 1 (3 - 2))"
    by blast
  define p1 where "p1 = p\<lparr>trace := trace p @ (if prest \<ge> 8 \<and> fl \<ge> 7 then MSG_LUX_BOOST
                                         else MSG_LUX_DAMPED) # rest1, car := c\<rparr>"
  have "item_id (cells h1 (car p1)) \<noteq> None" "car p1 < nxt h1"
    using c n1 by (simp_all add: p1_def)
  from rules_house_spec [OF ti1 this, of prest fl rel g1]
  obtain hs g2 h2 rest2 where
    r2: "rules_house prest fl rel p1 g1 h1 =
           (Inr (p1\<lparr>trace := trace p1 @ rest2, house := hs\<rparr>, g2), h2)"
    and rest2: "set rest2 \<subseteq> HOUSE_MSGS"
    and hs: "nxt h1 \<le> hs" "hs < nxt h1 + 5" "item_id (cells h2 hs) \<noteq> None"
    and n2: "nxt h2 = nxt h1 + 5" and old2: "\<forall>r<nxt h1. cells h2 r = cells h1 r"
    and ti2: "tables_intact h2"
    by blast
  define p2 where "p2 = p1\<lparr>trace := trace p1 @ rest2, house := hs\<rparr>"
  have "item_id (cells h2 (career p2)) \<noteq> None" "career p2 < nxt h2"
    using cid cl old1 old2 n1 n2 by (simp_all add: p2_def p1_def)
  from rules_fame_spec [OF ti2 this, of g2]
  obtain fm g3 h3 rest3 where
    r3: "rules_fame p2 g2 h2 = (Inr (p2\<lparr>trace := trace p2 @ rest3, fame := fm\<rparr>, g3), h3)"
    and rest3: "rest3 = [] \<or> rest3 = [''fame: creator/founder nudge'']"
    and fm: "fm = fame p2 \<or> (nxt h2 \<le> fm \<and> fm < nxt h2 + 5 \<and> item_id (cells h3 fm) \<noteq> None)"
    and n3: "nxt h3 = nxt h2 + 5" and old3: "\<forall>r<nxt h2. cells h3 r = cells h2 r"
    and ti3: "tables_intact h3"
    by blast
  define rest where "rest = rest1 @ rest2 @ rest3"
  have res: "apply_rules p g h =
      (Inr (p\<lparr>trace := trace p @ (if lux_synergy h p then MSG_LUX_BOOST
                                    else MSG_LUX_DAMPED) # rest,
               car := c, house := hs, fame := fm\<rparr>, g3), h3)"
    unfolding apply_rules_def Let_def prest_def [symmetric] fl_def [symmetric]
    by (simp add: rel r1 p1_def [symmetric] r2 p2_def [symmetric] r3)
       (simp add: p2_def p1_def rest_def b)
  have 1: "set rest \<subseteq> insert ''car: urban mobility boost''
                (insert ''fame: creator/founder nudge'' HOUSE_MSGS)"
    using rest1 rest2 rest3 by (auto simp: rest_def)
  have 2: "nxt h \<le> c \<and> c < nxt h + 5 \<and> item_id (cells h3 c) \<noteq> None"
    using c old2 old3 n1 n2 by simp
  have 3: "nxt h + 5 \<le> hs \<and> hs < nxt h + 10 \<and> item_id (cells h3 hs) \<noteq> None"
    using hs old3 n1 n2 by simp
  have 4: "fm = fame p \<or> (nxt h + 10 \<le> fm \<and> fm < nxt h + 15 \<and> item_id (cells h3 fm) \<noteq> None)"
    using fm n1 n2 by (auto simp: p2_def p1_def)
  have 5: "nxt h3 = nxt h + 15" using n1 n2 n3 by simp
  have 6: "\<forall>r<nxt h. cells h3 r = cells h r" using old1 old2 old3 n1 n2 by simp
  have 7: "weight (cells h3 (nxt h + 1)) = Some (if lux_synergy h p then 3 + 3 else max 1 (3 - 2))"
    using w1 old2 old3 n1 n2 b by simp
  have 8: "item_id (cells h3 (nxt h + 1)) = Some ''ultra_lux_ev''"
    using i1 old2 old3 n1 n2 by simp
  show ?thesis using res 1 2 3 4 5 6 7 8 ti3 by blast
qed

subsection \<open>The rule engine\<close>

lemma tables_intact_heap0: "tables_intact heap0"
  by (rule tables_intactI) (simp_all add: heap0_def)





subsection \<open>No operation writes to an object that existed before the call\<close>

lemma extends_refl [simp]: "extends h h"
  by (simp add: extends_def)

lemma extends_trans: "extends h0 h \<Longrightarrow> extends h h' \<Longrightarrow> extends h0 h'"
  by (auto simp: extends_def)

lemma extends_tables: "tables_intact h \<Longrightarrow> extends h h' \<Longrightarrow> tables_intact h'"
  using tables_intact_frame by (simp add: extends_def)

lemma bind_extends:
  assumes "extends h0 (snd m)"
    and "\<And>x. extends h0 (snd m) \<Longrightarrow> extends h0 (snd (f x (snd m)))"
  shows "extends h0 (snd (bind m f))"
  using assms by (cases m; cases "fst m") (auto simp: bind_def)

lemma extends_if:
  "extends h0 (snd a) \<Longrightarrow> extends h0 (snd b) \<Longrightarrow> extends h0 (snd (if u then a else b))"
  by simp

lemma extends_case_option:
  "extends h0 (snd a) \<Longrightarrow> (\<And>x. extends h0 (snd (f x))) \<Longrightarrow>
     extends h0 (snd (case v of None \<Rightarrow> a | Some x \<Rightarrow> f x))"
  by (cases v) simp_all

lemma extends_case_prod:
  "(\<And>a b. extends h0 (snd (f a b h))) \<Longrightarrow> extends h0 (snd ((case x of (a, b) \<Rightarrow> f a b) h))"
  by (cases x) simp

lemma extends_Pair: "extends h0 h \<Longrightarrow> extends h0 (snd (r, h))"
  by simp

lemma weighted_choice_extends:
  "extends h0 h \<Longrightarrow> extends h0 (snd (weighted_choice g items h))"
proof -
  assume e: "extends h0 h"
  have "extends h (snd (weighted_choice g items h))"
    by (auto simp: weighted_choice_def Let_def extends_def alloc_def split: option.splits)
  with e show ?thesis by (rule extends_trans)
qed

lemma adjust_extends:
  assumes "\<forall>r\<in>set pool. nxt h0 \<le> r" and "extends h0 h"
  shows "extends h0 (snd (adjust c f pool h))"
proof -
  obtain res h' where a: "adjust c f pool h = (res, h')" by (cases "adjust c f pool h")
  from adjust_frame [OF a] assms show ?thesis
    unfolding a extends_def by (metis leD snd_conv)
qed

lemma copy_pool_extends:
  assumes "copy_pool xs h = (pool, h1)" and "extends h0 h"
  shows "extends h0 h1 \<and> (\<forall>r\<in>set pool. nxt h0 \<le> r)"
proof -
  from copy_pool_spec [OF assms(1)] have "extends h h1" and "\<forall>r\<in>set pool. nxt h \<le> r"
    by (auto simp: extends_def)
  with assms(2) show ?thesis using extends_trans by (auto simp: extends_def)
qed

lemmas extends_intros = bind_extends extends_if extends_case_option extends_case_prod
  extends_Pair adjust_extends weighted_choice_extends

lemma rules_car_extends:
  assumes "extends h0 h"
  shows "extends h0 (snd (rules_car prest fl p g h))"
proof -
  obtain pool h1 where cp: "copy_pool (TRAITS ''car'') h = (pool, h1)"
    by (cases "copy_pool (TRAITS ''car'') h")
  from copy_pool_extends [OF cp assms]
  have e1: "extends h0 h1" and p: "\<forall>r\<in>set pool. nxt h0 \<le> r" by blast+
  show ?thesis
    unfolding rules_car_def cp prod.case Let_def
    by (intro extends_intros p e1; assumption)
qed

lemma rules_house_extends:
  assumes "extends h0 h"
  shows "extends h0 (snd (rules_house prest fl rel p g h))"
proof -
  obtain pool h1 where cp: "copy_pool (TRAITS ''house'') h = (pool, h1)"
    by (cases "copy_pool (TRAITS ''house'') h")
  from copy_pool_extends [OF cp assms]
  have e1: "extends h0 h1" and p: "\<forall>r\<in>set pool. nxt h0 \<le> r" by blast+
  show ?thesis
    unfolding rules_house_def cp prod.case Let_def
    by (intro extends_intros p e1; assumption)
qed

lemma extends_case_sum_bool:
  "(\<And>e. extends h0 (snd (a e))) \<Longrightarrow> extends h0 (snd b) \<Longrightarrow> extends h0 (snd c) \<Longrightarrow>
     extends h0 (snd (case v of Inl e \<Rightarrow> a e | Inr False \<Rightarrow> b | Inr True \<Rightarrow> c))"
  by (cases v) (auto split: bool.splits)

lemma rules_fame_extends:
  assumes "extends h0 h"
  shows "extends h0 (snd (rules_fame p g h))"
proof -
  obtain pool h1 where cp: "copy_pool (TRAITS ''fame'') h = (pool, h1)"
    by (cases "copy_pool (TRAITS ''fame'') h")
  from copy_pool_extends [OF cp assms]
  have e1: "extends h0 h1" and p: "\<forall>r\<in>set pool. nxt h0 \<le> r" by blast+
  show ?thesis
    unfolding rules_fame_def cp prod.case
    by (intro extends_case_sum_bool extends_intros p e1; assumption)
qed

lemma apply_rules_extends:
  assumes "extends h0 h"
  shows "extends h0 (snd (apply_rules p g h))"
  unfolding apply_rules_def Let_def
  by (intro extends_intros rules_car_extends rules_house_extends rules_fame_extends assms;
      assumption)

lemma locked_or_extends:
  "extends h0 h \<Longrightarrow> extends h0 (snd (locked_or lock d g h))"
  unfolding locked_or_def
  by (intro extends_intros; assumption)

lemma pick_all_extends:
  assumes "extends h0 h"
  shows "extends h0 (snd (pick_all Random name timeline lock salt h))"
  unfolding pick_all_def Let_def
  by (intro extends_intros locked_or_extends apply_rules_extends assms; assumption)

lemma mc_loop_extends:
  "extends h0 h \<Longrightarrow> extends h0 (snd (mc_loop Random name timeline i n counts h))"
proof (induction "nat (n - i)" arbitrary: i counts h)
  case 0
  then show ?case by (simp add: mc_loop.simps)
next
  case (Suc k)
  then have lt: "i < n" by simp
  obtain res h1 where pa:
    "pick_all Random name timeline None (''mc:'' @ py_str (nat i)) h = (res, h1)"
    by (cases "pick_all Random name timeline None (''mc:'' @ py_str (nat i)) h")
  have e1: "extends h0 h1"
    using pick_all_extends [OF Suc.prems, of Random name timeline None
        "''mc:'' @ py_str (nat i)"] unfolding pa by simp
  have k: "k = nat (n - (i + 1))" using Suc.hyps(2) by simp
  show ?case
    apply (subst mc_loop.simps)
    apply (simp only: lt if_True pa)
    apply (simp split: sum.splits add: e1 Suc.hyps(1) [OF k e1])
    done
qed

lemma monte_carlo_extends:
  "extends h0 h \<Longrightarrow> extends h0 (snd (monte_carlo Random name timeline n h))"
  by (simp add: monte_carlo_def mc_loop_extends)

lemma reroll_section_extends:
  "extends h0 h \<Longrightarrow> extends h0 (snd (reroll_section Random name timeline domain base h))"
  by (simp add: reroll_section_def Let_def pick_all_extends)

lemma calls_extends: "calls Random h h' \<Longrightarrow> extends h h'"
  by (induction rule: calls.induct)
     (simp_all add: pick_all_extends apply_rules_extends monte_carlo_extends
       reroll_section_extends)

text \<open>
  Claim C5. No operation mutates the base content tables: after any number of calls of
  \<^verbatim>\<open>pick_all\<close>, \<^verbatim>\<open>apply_rules\<close>, \<^verbatim>\<open>monte_carlo\<close> and \<^verbatim>\<open>reroll_section\<close>, with any arguments and
  whether they return or raise, the 28 dicts of the tables hold what the module defined.
  Every weight adjustment is made on a copy: each object that existed before the calls is
  unchanged (\<open>extends\<close>), the calls only add objects.
\<close>

theorem tables_never_mutated:
  assumes "tables_intact h" and "calls Random h h'"
  shows "tables_intact h' \<and> extends h h'"
  using assms extends_tables calls_extends by blast

theorem tables_never_mutated_witness:
  "tables_intact heap0
   \<and> calls zero_Random heap0
        (snd (reroll_section zero_Random ''Ada'' ''prime'' ''car'' sample_picks
           (snd (monte_carlo zero_Random ''Ada'' ''prime'' 2
              (snd (apply_rules sample_picks zero_rng
                 (snd (pick_all zero_Random ''Ada'' ''prime'' None [] heap0))))))))
   \<and> tables_intact
        (snd (reroll_section zero_Random ''Ada'' ''prime'' ''car'' sample_picks
           (snd (monte_carlo zero_Random ''Ada'' ''prime'' 2
              (snd (apply_rules sample_picks zero_rng
                 (snd (pick_all zero_Random ''Ada'' ''prime'' None [] heap0))))))))
   \<and> extends heap0
        (snd (reroll_section zero_Random ''Ada'' ''prime'' ''car'' sample_picks
           (snd (monte_carlo zero_Random ''Ada'' ''prime'' 2
              (snd (apply_rules sample_picks zero_rng
                 (snd (pick_all zero_Random ''Ada'' ''prime'' None [] heap0))))))))"
proof -
  have c: "calls zero_Random heap0
        (snd (reroll_section zero_Random ''Ada'' ''prime'' ''car'' sample_picks
           (snd (monte_carlo zero_Random ''Ada'' ''prime'' 2
              (snd (apply_rules sample_picks zero_rng
                 (snd (pick_all zero_Random ''Ada'' ''prime'' None [] heap0))))))))"
    by (intro calls.intros)
  show ?thesis
    using tables_intact_heap0 c tables_never_mutated [OF tables_intact_heap0 c] by blast
qed

subsection \<open>The prediction pipeline\<close>

lemma TRAITS_nonempty: "d \<in> set DOMAINS \<Longrightarrow> TRAITS d \<noteq> []"
  by (auto simp: DOMAINS_def TRAITS_def)

lemma has_id_truthy: "item_id it \<noteq> None \<Longrightarrow> truthy it"
  by (auto simp: truthy_def empty_item_def)

lemma locked_or_spec:
  assumes ti: "tables_intact h"
    and lk: "\<forall>d r. lock d = Some r \<longrightarrow> r < nxt h \<and> item_id (cells h r) \<noteq> None"
    and d: "d \<in> set DOMAINS"
  shows "\<exists>r g'. locked_or lock d g h = (Inr (r, g'), h) \<and> r < nxt h
           \<and> item_id (cells h r) \<noteq> None \<and> (\<forall>x. lock d = Some x \<longrightarrow> r = x)"
proof (cases "lock d")
  case None
  from weighted_choice_member [OF TRAITS_nonempty [OF d], of g h]
  obtain r g' where wc: "weighted_choice g (TRAITS d) h = (Inr (r, g'), h)"
    and r: "r \<in> set (TRAITS d)" by blast
  have r28: "r < 28" using TRAITS_bound [OF r] .
  have "28 \<le> nxt h" using ti by (simp add: tables_intact_def)
  moreover have "item_id (cells h r) \<noteq> None"
    using tables_cell [OF ti r28] trait_items_have_id_weight [OF r28] by simp
  ultimately show ?thesis using None wc r28 by (simp add: locked_or_def)
next
  case (Some x)
  then have "x < nxt h" and i: "item_id (cells h x) \<noteq> None" using lk by blast+
  then show ?thesis using Some has_id_truthy [OF i] by (simp add: locked_or_def)
qed

lemma pick_all_spec:
  assumes ti: "tables_intact h"
    and lk: "\<forall>d r. lock d = Some r \<longrightarrow> r < nxt h \<and> item_id (cells h r) \<noteq> None"
    and l0: "lock = (case lock0 of None \<Rightarrow> Map.empty | Some l \<Rightarrow> l)"
  shows "\<exists>p h'. pick_all Random name timeline lock0 salt h = (Inr p, h')
           \<and> tables_intact h' \<and> extends h h' \<and> wf_picks h' p
           \<and> (\<forall>x. lock ''relationship'' = Some x \<longrightarrow> relationship p = x)
           \<and> (\<forall>x. lock ''career'' = Some x \<longrightarrow> career p = x)"
proof -
  define g0 where "g0 = rng_for Random name timeline salt"
  have doms: "''career'' \<in> set DOMAINS" "''fame'' \<in> set DOMAINS"
    "''relationship'' \<in> set DOMAINS" "''car'' \<in> set DOMAINS" "''house'' \<in> set DOMAINS"
    by (simp_all add: DOMAINS_def)
  from locked_or_spec [OF ti lk doms(1), of g0]
  obtain c g1 where 1: "locked_or lock ''career'' g0 h = (Inr (c, g1), h)"
    and c: "c < nxt h" "item_id (cells h c) \<noteq> None"
    and cl: "\<forall>x. lock ''career'' = Some x \<longrightarrow> c = x" by blast
  from locked_or_spec [OF ti lk doms(2), of g1]
  obtain fa g2 where 2: "locked_or lock ''fame'' g1 h = (Inr (fa, g2), h)"
    and fa: "fa < nxt h" "item_id (cells h fa) \<noteq> None" by blast
  from locked_or_spec [OF ti lk doms(3), of g2]
  obtain re g3 where 3: "locked_or lock ''relationship'' g2 h = (Inr (re, g3), h)"
    and re: "re < nxt h" "item_id (cells h re) \<noteq> None"
    and rl: "\<forall>x. lock ''relationship'' = Some x \<longrightarrow> re = x" by blast
  from locked_or_spec [OF ti lk doms(4), of g3]
  obtain ca g4 where 4: "locked_or lock ''car'' g3 h = (Inr (ca, g4), h)" by blast
  from locked_or_spec [OF ti lk doms(5), of g4]
  obtain ho g5 where 5: "locked_or lock ''house'' g4 h = (Inr (ho, g5), h)" by blast
  define p0 where "p0 = \<lparr>career = c, car = ca, house = ho, relationship = re, fame = fa,
                          trace = []\<rparr>"
  have "item_id (cells h (relationship p0)) \<noteq> None" "item_id (cells h (career p0)) \<noteq> None"
    "career p0 < nxt h" using c re by (simp_all add: p0_def)
  from apply_rules_spec [OF ti this, of g5]
  obtain c' hs fm g' h' rest where
    ar: "apply_rules p0 g5 h =
           (Inr (p0\<lparr>trace := trace p0 @ (if lux_synergy h p0 then MSG_LUX_BOOST
                                           else MSG_LUX_DAMPED) # rest,
                     car := c', house := hs, fame := fm\<rparr>, g'), h')"
    and c': "c' < nxt h + 5" "item_id (cells h' c') \<noteq> None"
    and hs: "hs < nxt h + 10" "item_id (cells h' hs) \<noteq> None"
    and fm: "fm = fame p0 \<or> (nxt h + 10 \<le> fm \<and> fm < nxt h + 15 \<and> item_id (cells h' fm) \<noteq> None)"
    and n: "nxt h' = nxt h + 15" and old: "\<forall>r<nxt h. cells h' r = cells h r"
    and ti': "tables_intact h'" by blast
  define p where "p = p0\<lparr>trace := trace p0 @ (if lux_synergy h p0 then MSG_LUX_BOOST
                                           else MSG_LUX_DAMPED) # rest,
                     car := c', house := hs, fame := fm\<rparr>"
  have res: "pick_all Random name timeline lock0 salt h = (Inr p, h')"
    unfolding pick_all_def Let_def l0 [symmetric] g0_def [symmetric]
    by (simp add: 1 2 3 4 5 p0_def [symmetric] ar p_def)
  have ext: "extends h h'" using n old by (simp add: extends_def)
  have fmw: "fm < nxt h' \<and> item_id (cells h' fm) \<noteq> None"
    using fm fa old n by (auto simp: p0_def)
  have wf: "wf_picks h' p"
    using c re c' hs fmw old n
    by (simp add: wf_picks_def DOMAINS_def pick_of_def p_def p0_def)
  have "relationship p = re" "career p = c" by (simp_all add: p_def p0_def)
  then show ?thesis using res ti' ext wf rl cl by auto
qed

lemma wf_picks_domain:
  "wf_picks h p \<Longrightarrow> d \<in> set DOMAINS \<Longrightarrow>
     pick_of p d < nxt h \<and> item_id (cells h (pick_of p d)) \<noteq> None"
  by (simp add: wf_picks_def list_all_iff)

lemma wf_sample_picks: "wf_picks heap0 sample_picks"
  by (simp add: wf_picks_def DOMAINS_def pick_of_def sample_picks_def heap0_def TRAIT_ITEMS_def
      career_item_def car_item_def house_item_def relationship_item_def fame_item_def)

text \<open>
  Claim C8. For every base Pick-Set (of trait items, the tables being intact) and every
  target domain other than \<open>relationship\<close>, rerolling the target returns a Pick-Set whose
  relationship item is the one of the base Pick-Set: the same object, with the same content.
\<close>

theorem reroll_keeps_relationship:
  assumes "tables_intact h" and "wf_picks h base" and "domain \<noteq> ''relationship''"
  shows "\<exists>p' h'. reroll_section Random name timeline domain base h = (Inr p', h')
           \<and> relationship p' = relationship base
           \<and> cells h' (relationship p') = cells h (relationship base)"
proof -
  define locks where
    "locks = (\<lambda>d. if d \<in> set DOMAINS \<and> d \<noteq> domain then Some (pick_of base d) else None)"
  have lk: "\<forall>d r. locks d = Some r \<longrightarrow> r < nxt h \<and> item_id (cells h r) \<noteq> None"
    using wf_picks_domain [OF assms(2)] by (auto simp: locks_def split: if_splits)
  have l0: "locks = (case Some locks of None \<Rightarrow> Map.empty | Some l \<Rightarrow> l)" by simp
  from pick_all_spec [OF assms(1) lk l0, of Random name timeline "''reroll:'' @ domain"]
  obtain p' h' where
    res: "pick_all Random name timeline (Some locks) (''reroll:'' @ domain) h = (Inr p', h')"
    and ext: "extends h h'"
    and rl: "\<forall>x. locks ''relationship'' = Some x \<longrightarrow> relationship p' = x" by blast
  have "locks ''relationship'' = Some (relationship base)"
    using assms(3) by (simp add: locks_def DOMAINS_def pick_of_def)
  then have r: "relationship p' = relationship base" using rl by blast
  have "relationship base < nxt h"
    using wf_picks_domain [OF assms(2), of "''relationship''"]
    by (simp add: DOMAINS_def pick_of_def)
  then have c: "cells h' (relationship p') = cells h (relationship base)"
    using ext r by (simp add: extends_def)
  have "reroll_section Random name timeline domain base h = (Inr p', h')"
    unfolding reroll_section_def Let_def locks_def [symmetric] using res by simp
  then show ?thesis using r c by blast
qed

theorem reroll_keeps_relationship_witness:
  "tables_intact heap0 \<and> wf_picks heap0 sample_picks \<and> ''car'' \<noteq> ''relationship''
   \<and> (\<exists>p' h'. reroll_section zero_Random ''Ada'' ''prime'' ''car'' sample_picks heap0
                  = (Inr p', h')
        \<and> relationship p' = relationship sample_picks
        \<and> cells h' (relationship p') = cells heap0 (relationship sample_picks))"
proof -
  have d: "''car'' \<noteq> ''relationship''" by simp
  show ?thesis
    using tables_intact_heap0 wf_sample_picks d
      reroll_keeps_relationship [OF tables_intact_heap0 wf_sample_picks d,
        of zero_Random "''Ada''" "''prime''"]
    by blast
qed

subsection \<open>Monte Carlo aggregation\<close>

lemma incr_sum: "sum_list (map snd (incr key m)) = sum_list (map snd m) + 1"
  by (induction m) auto

lemma counts_shape:
  assumes "map fst counts = DOMAINS"
  shows "\<exists>m1 m2 m3 m4 m5. counts = [(''career'', m1), (''car'', m2), (''house'', m3),
                                       (''relationship'', m4), (''fame'', m5)]"
  using assms by (auto simp: DOMAINS_def map_eq_Cons_conv)

lemma tally_domains_spec:
  assumes "wf_picks h p" and "map fst counts = DOMAINS"
  shows "\<exists>counts'. tally_domains p h DOMAINS counts = Inr counts' \<and> map fst counts' = DOMAINS
           \<and> (\<forall>d\<in>set DOMAINS. domain_total d counts' = domain_total d counts + 1)"
proof -
  from counts_shape [OF assms(2)] obtain m1 m2 m3 m4 m5 where
    c: "counts = [(''career'', m1), (''car'', m2), (''house'', m3),
                  (''relationship'', m4), (''fame'', m5)]" by blast
  have "\<forall>d\<in>set DOMAINS. \<exists>k. item_id (cells h (pick_of p d)) = Some k"
    using wf_picks_domain [OF assms(1)] by auto
  then obtain k1 k2 k3 k4 k5 where
    k: "item_id (cells h (career p)) = Some k1" "item_id (cells h (car p)) = Some k2"
       "item_id (cells h (house p)) = Some k3" "item_id (cells h (relationship p)) = Some k4"
       "item_id (cells h (fame p)) = Some k5"
    by (auto simp: DOMAINS_def pick_of_def)
  show ?thesis
    by (simp add: c DOMAINS_def pick_of_def k tally_one_def domain_total_def incr_sum)
qed

lemma mc_loop_spec:
  assumes "tables_intact h" and "map fst counts = DOMAINS"
  shows "\<exists>counts' h'. mc_loop Random name timeline i n counts h = (Inr counts', h')
           \<and> map fst counts' = DOMAINS
           \<and> (\<forall>d\<in>set DOMAINS. domain_total d counts' = domain_total d counts + max 0 (n - i))
           \<and> tables_intact h'"
  using assms
proof (induction "nat (n - i)" arbitrary: i counts h)
  case 0
  then show ?case by (simp add: mc_loop.simps)
next
  case (Suc k)
  then have lt: "i < n" by simp
  have lk: "\<forall>d r. Map.empty d = Some r \<longrightarrow> r < nxt h \<and> item_id (cells h r) \<noteq> None" by simp
  have l0: "Map.empty = (case None of None \<Rightarrow> Map.empty | Some l \<Rightarrow> l)" by simp
  from pick_all_spec [OF Suc.prems(1) lk l0, of Random name timeline "''mc:'' @ py_str (nat i)"]
  obtain p h1 where
    pa: "pick_all Random name timeline None (''mc:'' @ py_str (nat i)) h = (Inr p, h1)"
    and ti1: "tables_intact h1" and wf: "wf_picks h1 p" by blast
  from tally_domains_spec [OF wf Suc.prems(2)]
  obtain counts1 where td: "tally_domains p h1 DOMAINS counts = Inr counts1"
    and f1: "map fst counts1 = DOMAINS"
    and t1: "\<forall>d\<in>set DOMAINS. domain_total d counts1 = domain_total d counts + 1" by blast
  have k: "k = nat (n - (i + 1))" using Suc.hyps(2) by simp
  from Suc.hyps(1) [OF k ti1 f1]
  obtain counts' h' where
    r: "mc_loop Random name timeline (i + 1) n counts1 h1 = (Inr counts', h')"
    and f': "map fst counts' = DOMAINS"
    and t': "\<forall>d\<in>set DOMAINS. domain_total d counts' = domain_total d counts1
                 + max 0 (n - (i + 1))"
    and ti': "tables_intact h'" by blast
  have "mc_loop Random name timeline i n counts h = (Inr counts', h')"
    apply (subst mc_loop.simps)
    apply (simp only: lt if_True pa)
    apply (simp add: td r)
    done
  moreover have "\<forall>d\<in>set DOMAINS. domain_total d counts' = domain_total d counts + max 0 (n - i)"
    using t' t1 lt by auto
  ultimately show ?case using f' ti' by blast
qed

text \<open>
  Claim C6. For every name, timeline and positive trial count \<open>n\<close> (the tables being intact),
  Monte Carlo aggregation returns a tally for each of the five domains, and in each of them
  the occurrence counts sum to exactly \<open>n\<close>. Trial \<open>i\<close> runs the pipeline with salt \<open>mc:i\<close>,
  for \<open>i\<close> from 0 to \<open>n - 1\<close>.
\<close>

theorem monte_carlo_conserves_trials:
  assumes "tables_intact h" and "0 < n"
  shows "\<exists>counts h'. monte_carlo Random name timeline n h = (Inr counts, h')
           \<and> map fst counts = DOMAINS
           \<and> (\<forall>d\<in>set DOMAINS. domain_total d counts = n)"
proof -
  have f: "map fst (map (\<lambda>d. (d, [])) DOMAINS) = DOMAINS" by (simp add: comp_def)
  have z: "\<forall>d\<in>set DOMAINS. domain_total d (map (\<lambda>d. (d, [])) DOMAINS) = 0"
    by (simp add: DOMAINS_def domain_total_def)
  from mc_loop_spec [OF assms(1) f, of Random name timeline 0 n] z assms(2)
  show ?thesis by (fastforce simp: monte_carlo_def)
qed

theorem monte_carlo_conserves_trials_witness:
  "tables_intact heap0 \<and> (0::int) < 3
   \<and> (\<exists>counts h'. monte_carlo zero_Random ''Ada'' ''prime'' 3 heap0 = (Inr counts, h')
        \<and> map fst counts = DOMAINS
        \<and> (\<forall>d\<in>set DOMAINS. domain_total d counts = 3))"
proof -
  have n: "(0::int) < 3" by simp
  show ?thesis
    using tables_intact_heap0 n
      monte_carlo_conserves_trials [OF tables_intact_heap0 n, of zero_Random "''Ada''" "''prime''"]
    by blast
qed

subsection \<open>Seed derivation\<close>

text \<open>Evaluation of the hash unfolds these definitions; the constants are computed from
  their definition on the way.\<close>

lemmas sha_eval = sha256_int_def sha256_def pad_def zeros.simps blocks.simps compress_def
  H256_def K256_def frac_root_def primes_below.simps halvings.simps add32_def ssig0_def
  ssig1_def bsig0_def bsig1_def ch_def maj_def rotr_def T1_def T2_def next_w_def round1_def
  encode_def

text \<open>The test vector of the standard for the message \<open>abc\<close>.\<close>

lemma sha256_abc:
  "sha256 (encode ''abc'') =
     [0xba7816bf, 0x8f01cfea, 0x414140de, 0x5dae2223, 0xb00361a3, 0x96177a9c, 0xb410ff61,
      0xf20015ad]"
  by (simp add: sha_eval)






end
